theory Spec2Isabelle
  imports Complex_Main
begin

section \<open>Data model\<close>

text \<open>
  Mongo ObjectIds are modelled as natural numbers: every id in the model is a well-formed
  ObjectId, and \<open>id.toString() !== userId\<close> is plain inequality of ids. Dates are
  integers (milliseconds since the epoch); JavaScript Numbers that hold coordinates and
  distances are idealised as real numbers.
\<close>

type_synonym uid = nat

datatype error =
    NotFound
  | Forbidden
  | NotMatched
  | ProfileIncomplete
  | AlreadyLiked
  | AlreadyDisliked
  | ValidationError
  | ServerError

subsection \<open>models/User.js\<close>

record photo =
  url :: string
  isMain :: bool

record age_range =
  range_min :: int
  range_max :: int

record preferences_t =
  ageRange :: age_range
  maxDistance :: int

text \<open>
  The fields of \<open>userSchema\<close> that the matching and chat routes read or write.
  \<open>location\<close> is the GeoJSON coordinate pair \<open>[longitude, latitude]\<close>, with the
  schema default \<open>[0, 0]\<close>; \<open>bio\<close> is not required, so it may be undefined.
\<close>

record user =
  user_id :: uid
  isEmailVerified :: bool
  firstName :: string
  lastName :: string
  age :: int
  gender :: string
  interestedIn :: string
  university :: string
  bio :: "string option"
  photos :: "photo list"
  location :: "real \<times> real"
  preferences :: preferences_t
  lastActive :: int
  likedUsers :: "uid list"
  dislikedUsers :: "uid list"
  matches :: "uid list"
  profileCompleted :: bool

text \<open>\<open>userSchema.methods.isProfileComplete\<close>: every operand of the \<open>&&\<close> chain is truthy.\<close>

definition isProfileComplete :: "user \<Rightarrow> bool" where
  "isProfileComplete u \<longleftrightarrow>
     firstName u \<noteq> [] \<and>
     lastName u \<noteq> [] \<and>
     age u \<noteq> 0 \<and>
     gender u \<noteq> [] \<and>
     interestedIn u \<noteq> [] \<and>
     university u \<noteq> [] \<and>
     (case bio u of None \<Rightarrow> False | Some b \<Rightarrow> b \<noteq> []) \<and>
     length (photos u) > 0"

subsection \<open>The user collection\<close>

text \<open>
  The collection is the list of its documents. \<open>User.findById\<close> returns a copy of the
  document with that id, and \<open>doc.save()\<close> writes the copy back over the stored one.
\<close>

definition findById :: "user list \<Rightarrow> uid \<Rightarrow> user option" where
  "findById us i = find (\<lambda>u. user_id u = i) us"

definition save :: "user list \<Rightarrow> user \<Rightarrow> user list" where
  "save us u = map (\<lambda>x. if user_id x = user_id u then u else x) us"

section \<open>Matching routes\<close>

record like_result =
  isMatch :: bool
  matchedUser :: "uid option"

text \<open>
  \<open>router.post('/like/:userId')\<close>. Both documents are loaded before anything is
  changed, so the reciprocity test reads the target as it was stored. The target document
  is saved before the acting user's. When a user likes themselves the two copies are equal,
  so the reciprocity test can only hold where the route has already answered
  \<open>AlreadyLiked\<close>: a self-like never records a match.
\<close>

definition like :: "user list \<Rightarrow> uid \<Rightarrow> uid \<Rightarrow> error + (user list \<times> like_result)" where
  "like us actor target =
     (case findById us actor of
        None \<Rightarrow> Inl NotFound
      | Some currentUser \<Rightarrow>
          (case findById us target of
             None \<Rightarrow> Inl NotFound
           | Some targetUser \<Rightarrow>
               if target \<in> set (likedUsers currentUser) then Inl AlreadyLiked
               else
                 let currentUser1 = currentUser\<lparr>likedUsers := likedUsers currentUser @ [target]\<rparr>
                 in if actor \<in> set (likedUsers targetUser) then
                      let currentUser2 = currentUser1\<lparr>matches := matches currentUser1 @ [target]\<rparr>;
                          targetUser2 = targetUser\<lparr>matches := matches targetUser @ [actor]\<rparr>
                      in Inr (save (save us targetUser2) currentUser2,
                              \<lparr>isMatch = True, matchedUser = Some (user_id targetUser)\<rparr>)
                    else Inr (save us currentUser1, \<lparr>isMatch = False, matchedUser = None\<rparr>)))"

text \<open>\<open>router.post('/dislike/:userId')\<close>: only the acting user is looked up.\<close>

definition dislike :: "user list \<Rightarrow> uid \<Rightarrow> uid \<Rightarrow> error + user list" where
  "dislike us actor target =
     (case findById us actor of
        None \<Rightarrow> Inl NotFound
      | Some currentUser \<Rightarrow>
          if target \<in> set (dislikedUsers currentUser) then Inl AlreadyDisliked
          else Inr (save us (currentUser\<lparr>dislikedUsers := dislikedUsers currentUser @ [target]\<rparr>)))"

text \<open>
  \<open>router.delete('/unmatch/:userId')\<close>: four filters on the two loaded copies, then the
  acting user is saved, then the target.
\<close>

definition unmatch :: "user list \<Rightarrow> uid \<Rightarrow> uid \<Rightarrow> error + user list" where
  "unmatch us actor target =
     (case findById us actor of
        None \<Rightarrow> Inl NotFound
      | Some currentUser \<Rightarrow>
          (case findById us target of
             None \<Rightarrow> Inl NotFound
           | Some targetUser \<Rightarrow>
               let currentUser1 = currentUser\<lparr>matches := filter (\<lambda>i. i \<noteq> target) (matches currentUser)\<rparr>;
                   targetUser1 = targetUser\<lparr>matches := filter (\<lambda>i. i \<noteq> actor) (matches targetUser)\<rparr>;
                   currentUser2 = currentUser1\<lparr>likedUsers := filter (\<lambda>i. i \<noteq> target) (likedUsers currentUser1)\<rparr>;
                   targetUser2 = targetUser1\<lparr>likedUsers := filter (\<lambda>i. i \<noteq> actor) (likedUsers targetUser1)\<rparr>
               in Inr (save (save us currentUser2) targetUser2)))"

text \<open>
  The relationship sets of a directory are consistent when every match is also a like and
  nobody is matched with themselves. The empty directory is consistent, a freshly
  registered user has three empty sets, and the three routes above keep consistency.
\<close>

definition dir_ok :: "user list \<Rightarrow> bool" where
  "dir_ok us \<longleftrightarrow>
     (\<forall>u \<in> set us. set (matches u) \<subseteq> set (likedUsers u) \<and> user_id u \<notin> set (matches u))"

text \<open>
  \<open>calculateDistance\<close> and \<open>deg2rad\<close>. \<open>Math.atan2\<close> is the two-argument
  arctangent; over the reals it is the angle of the point \<open>(x, y)\<close> in \<open>(-\<pi>, \<pi>]\<close>.
\<close>

definition atan2 :: "real \<Rightarrow> real \<Rightarrow> real" where
  "atan2 y x =
     (if x > 0 then arctan (y / x)
      else if x < 0 then (if y \<ge> 0 then arctan (y / x) + pi else arctan (y / x) - pi)
      else if y > 0 then pi / 2
      else if y < 0 then - pi / 2
      else 0)"

definition deg2rad :: "real \<Rightarrow> real" where
  "deg2rad deg = deg * (pi / 180)"

definition calculateDistance :: "real \<Rightarrow> real \<Rightarrow> real \<Rightarrow> real \<Rightarrow> real" where
  "calculateDistance lat1 lon1 lat2 lon2 =
     (let R = 6371;
          dLat = deg2rad (lat2 - lat1);
          dLon = deg2rad (lon2 - lon1);
          a = sin (dLat / 2) * sin (dLat / 2) +
              cos (deg2rad lat1) * cos (deg2rad lat2) *
              sin (dLon / 2) * sin (dLon / 2);
          c = 2 * atan2 (sqrt a) (sqrt (1 - a));
          d = R * c
      in d)"

text \<open>
  \<open>router.get('/potential')\<close>. The query is a conjunction of conditions on the candidate
  document \<open>m\<close>. The \<open>$near\<close> condition is evaluated by the database's geospatial
  index, not by code of this repository: the distance in metres that the index measures
  between two coordinate pairs is the parameter \<open>near\<close>.
\<close>

definition matchCriteria ::
  "(real \<times> real \<Rightarrow> real \<times> real \<Rightarrow> real) \<Rightarrow> user \<Rightarrow> user \<Rightarrow> bool" where
  "matchCriteria near currentUser m \<longleftrightarrow>
     user_id m \<noteq> user_id currentUser \<and>
     user_id m \<notin> set (likedUsers currentUser @ dislikedUsers currentUser) \<and>
     university m = university currentUser \<and>
     isEmailVerified m = True \<and>
     profileCompleted m = True \<and>
     range_min (ageRange (preferences currentUser)) \<le> age m \<and>
     age m \<le> range_max (ageRange (preferences currentUser)) \<and>
     (interestedIn currentUser \<noteq> ''both'' \<longrightarrow> gender m = interestedIn currentUser) \<and>
     (interestedIn m = gender currentUser \<or> interestedIn m = ''both'') \<and>
     (fst (location currentUser) \<noteq> 0 \<and> snd (location currentUser) \<noteq> 0 \<longrightarrow>
        near (location currentUser) (location m)
          \<le> real_of_int (maxDistance (preferences currentUser) * 1000))"

record candidate =
  cand_user :: user
  distance :: "int option"

text \<open>
  The query sorts by \<open>lastActive\<close> descending and then keeps ten documents (the database
  applies \<open>sort\<close> before \<open>limit\<close> whatever the order of the chained calls); documents
  with equal \<open>lastActive\<close> keep their order in the collection. The displayed distance is
  \<open>Math.round\<close> of the haversine distance, or null when that distance is \<open>0\<close>.
\<close>

definition getCandidates ::
  "(real \<times> real \<Rightarrow> real \<times> real \<Rightarrow> real) \<Rightarrow> user list \<Rightarrow> uid \<Rightarrow> error + candidate list" where
  "getCandidates near us uid =
     (case findById us uid of
        None \<Rightarrow> Inl NotFound
      | Some currentUser \<Rightarrow>
          if \<not> isProfileComplete currentUser then Inl ProfileIncomplete
          else
            let potentialMatches =
                  take 10 (sort_key (\<lambda>m. - lastActive m) (filter (matchCriteria near currentUser) us))
            in Inr (map (\<lambda>m.
                     let d = (if fst (location currentUser) \<noteq> 0 \<and>
                                 snd (location currentUser) \<noteq> 0 \<and>
                                 fst (location m) \<noteq> 0 \<and>
                                 snd (location m) \<noteq> 0
                              then Some (calculateDistance
                                           (snd (location currentUser)) (fst (location currentUser))
                                           (snd (location m)) (fst (location m)))
                              else None)
                     in \<lparr>cand_user = m,
                         distance = (case d of
                                       None \<Rightarrow> None
                                     | Some x \<Rightarrow> if x \<noteq> 0 then Some \<lfloor>x + 1 / 2\<rfloor> else None)\<rparr>)
                   potentialMatches))"

text \<open>The haversine distance of \<open>calculateDistance\<close> in metres, as a candidate for \<open>near\<close>.\<close>

definition haversine_metres :: "real \<times> real \<Rightarrow> real \<times> real \<Rightarrow> real" where
  "haversine_metres p q = calculateDistance (snd p) (fst p) (snd q) (fst q) * 1000"

section \<open>Chat model and routes\<close>

subsection \<open>The Chat model\<close>

record read_receipt =
  read_user :: uid
  readAt :: int

record message =
  message_id :: nat
  sender :: uid
  content :: string
  messageType :: string
  readBy :: "read_receipt list"
  createdAt :: int

text \<open>
  \<open>lastMessage\<close> is a nested path whose \<open>timestamp\<close> has a default, so a new chat has a
  \<open>lastMessage\<close> with a timestamp and neither content nor sender.
\<close>

record last_message =
  lm_content :: "string option"
  lm_sender :: "uid option"
  lm_timestamp :: int

record chat =
  chat_id :: nat
  participants :: "uid list"
  messages :: "message list"
  lastMessage :: "last_message option"
  isActive :: bool

definition findChat :: "chat list \<Rightarrow> nat \<Rightarrow> chat option" where
  "findChat cs i = find (\<lambda>c. chat_id c = i) cs"

text \<open>
  \<open>chatSchema.pre('save')\<close> rejects a chat whose participant array has not exactly two
  entries; the route handlers catch the error and answer 500. Saving a new document
  appends it, saving a loaded one replaces the stored copy.
\<close>

definition pre_save :: "chat \<Rightarrow> bool" where
  "pre_save c \<longleftrightarrow> \<not> (length (participants c) \<noteq> 2)"

definition insertChat :: "chat list \<Rightarrow> chat \<Rightarrow> error + chat list" where
  "insertChat cs c = (if pre_save c then Inr (cs @ [c]) else Inl ServerError)"

definition updateChat :: "chat list \<Rightarrow> chat \<Rightarrow> error + chat list" where
  "updateChat cs c =
     (if pre_save c then Inr (map (\<lambda>x. if chat_id x = chat_id c then c else x) cs)
      else Inl ServerError)"

subsection \<open>routes/chat.js\<close>

text \<open>
  \<open>router.get('/with/:userId')\<close>. The id of a new chat and the creation time come from
  outside (\<open>new_id\<close>, \<open>now\<close>).
\<close>

definition getOrCreate ::
  "user list \<Rightarrow> chat list \<Rightarrow> uid \<Rightarrow> uid \<Rightarrow> nat \<Rightarrow> int \<Rightarrow> error + (chat list \<times> chat)" where
  "getOrCreate us cs me userId new_id now =
     (case findById us me of
        None \<Rightarrow> Inl NotFound
      | Some currentUser \<Rightarrow>
          (case findById us userId of
             None \<Rightarrow> Inl NotFound
           | Some otherUser \<Rightarrow>
               if userId \<notin> set (matches currentUser) then Inl NotMatched
               else
                 (case find (\<lambda>c. me \<in> set (participants c) \<and> userId \<in> set (participants c)) cs of
                    Some c \<Rightarrow> Inr (cs, c)
                  | None \<Rightarrow>
                      let c = \<lparr>chat_id = new_id, participants = [me, userId], messages = [],
                               lastMessage = Some \<lparr>lm_content = None, lm_sender = None,
                                                   lm_timestamp = now\<rparr>,
                               isActive = True\<rparr>
                      in (case insertChat cs c of
                            Inl e \<Rightarrow> Inl e
                          | Inr cs' \<Rightarrow> Inr (cs', c)))))"

text \<open>
  \<open>Array.prototype.slice(start, stop)\<close> on integer arguments: a negative index counts
  from the end, and both are clamped to the array.
\<close>

definition js_slice :: "'a list \<Rightarrow> int \<Rightarrow> int \<Rightarrow> 'a list" where
  "js_slice xs start stop =
     (let len = int (length xs);
          k = (if start < 0 then max (len + start) 0 else min start len);
          final = (if stop < 0 then max (len + stop) 0 else min stop len)
      in take (nat (final - k)) (drop (nat k) xs))"

record message_page =
  page_messages :: "message list"
  hasMore :: bool

text \<open>
  \<open>router.get('/:chatId/messages')\<close>, for integer \<open>page\<close> and \<open>limit\<close>. The comparator
  \<open>b.createdAt - a.createdAt\<close> sorts newest first, and the sort is stable.
\<close>

definition listMessages ::
  "chat list \<Rightarrow> nat \<Rightarrow> uid \<Rightarrow> int \<Rightarrow> int \<Rightarrow> error + message_page" where
  "listMessages cs chatId requester page limit =
     (case findChat cs chatId of
        None \<Rightarrow> Inl NotFound
      | Some chat \<Rightarrow>
          if requester \<notin> set (participants chat) then Inl Forbidden
          else
            let skip = (page - 1) * limit;
                msgs = rev (js_slice (sort_key (\<lambda>m. - createdAt m) (messages chat))
                                     skip (skip + limit))
            in Inr \<lparr>page_messages = msgs,
                    hasMore = (int (length (messages chat)) > skip + limit)\<rparr>)"

text \<open>The \<open>trim\<close> sanitizer of the validation chain, on ASCII white space.\<close>

definition is_space :: "char \<Rightarrow> bool" where
  "is_space c \<longleftrightarrow> c \<in> set [CHR '' '', CHR 0x09, CHR 0x0A, CHR 0x0B, CHR 0x0C, CHR 0x0D]"

definition trim :: "string \<Rightarrow> string" where
  "trim s = rev (dropWhile is_space (rev (dropWhile is_space s)))"

text \<open>
  \<open>router.post('/:chatId/messages')\<close>. The handler reads the clock twice (\<open>now_read\<close>
  for the sender's read receipt, \<open>now_last\<close> for \<open>lastMessage.timestamp\<close>); the
  message's \<open>createdAt\<close> is set by the schema's \<open>timestamps\<close> option when the chat is
  saved (\<open>now_saved\<close>).
\<close>

definition sendMessage ::
  "chat list \<Rightarrow> nat \<Rightarrow> uid \<Rightarrow> string \<Rightarrow> string option \<Rightarrow> nat \<Rightarrow> int \<Rightarrow> int \<Rightarrow> int
     \<Rightarrow> error + (chat list \<times> message)" where
  "sendMessage cs chatId me body_content body_messageType new_id now_read now_last now_saved =
     (let content' = trim body_content
      in if \<not> (1 \<le> length content' \<and> length content' \<le> 1000) \<or>
            (case body_messageType of
               None \<Rightarrow> False
             | Some t \<Rightarrow> t \<notin> set [''text'', ''image'', ''location''])
         then Inl ValidationError
         else
           (case findChat cs chatId of
              None \<Rightarrow> Inl NotFound
            | Some chat \<Rightarrow>
                if me \<notin> set (participants chat) then Inl Forbidden
                else
                  let msg = \<lparr>message_id = new_id, sender = me, content = content',
                             messageType = (case body_messageType of None \<Rightarrow> ''text'' | Some t \<Rightarrow> t),
                             readBy = [\<lparr>read_user = me, readAt = now_read\<rparr>],
                             createdAt = now_saved\<rparr>;
                      chat' = chat\<lparr>messages := messages chat @ [msg],
                                   lastMessage := Some \<lparr>lm_content = Some content',
                                                        lm_sender = Some me,
                                                        lm_timestamp = now_last\<rparr>\<rparr>
                  in (case updateChat cs chat' of
                        Inl e \<Rightarrow> Inl e
                      | Inr cs' \<Rightarrow> Inr (cs', msg))))"

text \<open>
  \<open>router.put('/:chatId/read')\<close>. The loop reads the clock once for each message it
  marks; \<open>clock m\<close> is the reading taken at message \<open>m\<close>.
\<close>

definition mark :: "uid \<Rightarrow> (message \<Rightarrow> int) \<Rightarrow> message \<Rightarrow> message" where
  "mark me clock m =
     (let hasRead = (\<exists>r \<in> set (readBy m). read_user r = me)
      in if \<not> hasRead then m\<lparr>readBy := readBy m @ [\<lparr>read_user = me, readAt = clock m\<rparr>]\<rparr>
         else m)"

definition markRead ::
  "chat list \<Rightarrow> nat \<Rightarrow> uid \<Rightarrow> (message \<Rightarrow> int) \<Rightarrow> error + chat list" where
  "markRead cs chatId me clock =
     (case findChat cs chatId of
        None \<Rightarrow> Inl NotFound
      | Some chat \<Rightarrow>
          if me \<notin> set (participants chat) then Inl Forbidden
          else updateChat cs (chat\<lparr>messages := map (mark me clock) (messages chat)\<rparr>))"

text \<open>
  \<open>router.delete('/:chatId/messages/:messageId')\<close>. \<open>messages.id\<close> finds the first
  message with the id, \<open>messages.pull\<close> removes every message with it.
\<close>

definition mirror :: "message \<Rightarrow> last_message" where
  "mirror m = \<lparr>lm_content = Some (content m), lm_sender = Some (sender m),
               lm_timestamp = createdAt m\<rparr>"

definition deleteMessage :: "chat list \<Rightarrow> nat \<Rightarrow> nat \<Rightarrow> uid \<Rightarrow> error + chat list" where
  "deleteMessage cs chatId messageId me =
     (case findChat cs chatId of
        None \<Rightarrow> Inl NotFound
      | Some chat \<Rightarrow>
          if me \<notin> set (participants chat) then Inl Forbidden
          else
            (case find (\<lambda>m. message_id m = messageId) (messages chat) of
               None \<Rightarrow> Inl NotFound
             | Some msg \<Rightarrow>
                 if sender msg \<noteq> me then Inl Forbidden
                 else
                   let remaining = filter (\<lambda>m. message_id m \<noteq> messageId) (messages chat);
                       chat1 = chat\<lparr>messages := remaining\<rparr>;
                       chat2 = (if length (messages chat1) > 0
                                then chat1\<lparr>lastMessage := Some (mirror (last (messages chat1)))\<rparr>
                                else chat1\<lparr>lastMessage := None\<rparr>)
                   in updateChat cs chat2))"

text \<open>
  Consistency of the chat collection: every stored chat passed the save hook, and no two
  stored chats have the same set of participants.
\<close>

definition chats_ok :: "chat list \<Rightarrow> bool" where
  "chats_ok cs \<longleftrightarrow>
     (\<forall>c \<in> set cs. length (participants c) = 2) \<and>
     distinct (map (\<lambda>c. set (participants c)) cs)"

text \<open>
  Read receipts of a chat are consistent when no message has two receipts of one user.
  \<open>sendMessage\<close> creates a message with the sender's receipt only, and \<open>markRead\<close>
  adds a receipt only where the user has none.
\<close>

definition receipts_ok :: "chat \<Rightarrow> bool" where
  "receipts_ok c \<longleftrightarrow> (\<forall>m \<in> set (messages c). distinct (map read_user (readBy m)))"

section \<open>Sample data\<close>

definition sample_user :: "uid \<Rightarrow> user" where
  "sample_user i =
     \<lparr>user_id = i, isEmailVerified = True, firstName = ''Ada'', lastName = ''Lee'',
      age = 21, gender = ''female'', interestedIn = ''both'', university = ''ox.ac.uk'',
      bio = Some ''hello'', photos = [\<lparr>url = ''/uploads/photos/p.jpg'', isMain = True\<rparr>],
      location = (0, 0),
      preferences = \<lparr>ageRange = \<lparr>range_min = 18, range_max = 30\<rparr>, maxDistance = 50\<rparr>,
      lastActive = 0, likedUsers = [], dislikedUsers = [], matches = [],
      profileCompleted = True\<rparr>"

definition two_users :: "user list" where
  "two_users = [sample_user 1, sample_user 2]"

definition matched_users :: "user list" where
  "matched_users =
     [(sample_user 1)\<lparr>likedUsers := [2], matches := [2]\<rparr>,
      (sample_user 2)\<lparr>likedUsers := [1], matches := [1]\<rparr>]"

definition empty_chat :: chat where
  "empty_chat =
     \<lparr>chat_id = 7, participants = [1, 2], messages = [],
      lastMessage = Some \<lparr>lm_content = None, lm_sender = None, lm_timestamp = 0\<rparr>,
      isActive = True\<rparr>"

definition first_message :: message where
  "first_message =
     \<lparr>message_id = 100, sender = 1, content = ''hello'', messageType = ''text'',
      readBy = [\<lparr>read_user = 1, readAt = 1000\<rparr>], createdAt = 1000\<rparr>"

definition second_message :: message where
  "second_message =
     \<lparr>message_id = 101, sender = 2, content = ''hi'', messageType = ''text'',
      readBy = [\<lparr>read_user = 2, readAt = 2000\<rparr>], createdAt = 2001\<rparr>"

definition one_message_chat :: chat where
  "one_message_chat =
     \<lparr>chat_id = 7, participants = [1, 2], messages = [first_message],
      lastMessage = Some \<lparr>lm_content = Some ''hello'', lm_sender = Some 1, lm_timestamp = 1000\<rparr>,
      isActive = True\<rparr>"

definition two_message_chat :: chat where
  "two_message_chat =
     \<lparr>chat_id = 7, participants = [1, 2], messages = [first_message, second_message],
      lastMessage = Some \<lparr>lm_content = Some ''hi'', lm_sender = Some 2, lm_timestamp = 2000\<rparr>,
      isActive = True\<rparr>"

definition after_delete_chat :: chat where
  "after_delete_chat =
     \<lparr>chat_id = 7, participants = [1, 2], messages = [second_message],
      lastMessage = Some \<lparr>lm_content = Some ''hi'', lm_sender = Some 2, lm_timestamp = 2001\<rparr>,
      isActive = True\<rparr>"

definition marked_chat :: chat where
  "marked_chat =
     \<lparr>chat_id = 7, participants = [1, 2],
      messages = [first_message\<lparr>readBy := [\<lparr>read_user = 1, readAt = 1000\<rparr>,
                                          \<lparr>read_user = 2, readAt = 3000\<rparr>]\<rparr>,
                  second_message],
      lastMessage = Some \<lparr>lm_content = Some ''hi'', lm_sender = Some 2, lm_timestamp = 2000\<rparr>,
      isActive = True\<rparr>"

definition sample_message :: "nat \<Rightarrow> message" where
  "sample_message i =
     \<lparr>message_id = i, sender = 1, content = ''hi'', messageType = ''text'',
      readBy = [\<lparr>read_user = 1, readAt = int i\<rparr>], createdAt = int i\<rparr>"

definition long_chat :: chat where
  "long_chat =
     \<lparr>chat_id = 7, participants = [1, 2], messages = map sample_message [0..<120],
      lastMessage = Some (mirror (sample_message 119)), isActive = True\<rparr>"

definition seeker :: user where
  "seeker = (sample_user 1)\<lparr>gender := ''male'', interestedIn := ''female''\<rparr>"

definition campus :: "user list" where
  "campus =
     [seeker,
      sample_user 2,
      (sample_user 3)\<lparr>gender := ''male''\<rparr>,
      (sample_user 4)\<lparr>university := ''cam.ac.uk''\<rparr>,
      (sample_user 5)\<lparr>interestedIn := ''female''\<rparr>,
      (sample_user 6)\<lparr>photos := [], profileCompleted := False\<rparr>]"

definition located_seeker :: user where
  "located_seeker = (sample_user 1)\<lparr>location := (1 / 1000, 1 / 1000)\<rparr>"

definition equator_seeker :: user where
  "equator_seeker = (sample_user 1)\<lparr>location := (90, 0)\<rparr>"

section \<open>Auxiliary definitions\<close>

text \<open>The Maclaurin polynomial of the sine of degree 17, used to bound \<open>\<pi>\<close>.\<close>

definition sin_poly :: "real \<Rightarrow> real" where
  "sin_poly x =
     x - x^3 / 6 + x^5 / 120 - x^7 / 5040 + x^9 / 362880 - x^11 / 39916800
       + x^13 / 6227020800 - x^15 / 1307674368000 + x^17 / 355687428096000"

section \<open>Facts about the collection\<close>

lemma findById_Some_id: "findById us i = Some u \<Longrightarrow> user_id u = i"
  by (auto simp: findById_def find_Some_iff)

lemma findById_Some_mem: "findById us i = Some u \<Longrightarrow> u \<in> set us"
  by (auto simp: findById_def find_Some_iff)

lemma findById_save:
  "findById (save us u) i =
     (if i = user_id u then (if findById us i = None then None else Some u) else findById us i)"
  unfolding findById_def save_def
  by (induction us) auto

lemma findById_save_same:
  "findById us (user_id u) = Some v \<Longrightarrow> findById (save us u) (user_id u) = Some u"
  by (simp add: findById_save)

lemma findById_save_other:
  "i \<noteq> user_id u \<Longrightarrow> findById (save us u) i = findById us i"
  by (simp add: findById_save)

lemma set_save: "set (save us u) \<subseteq> insert u (set us)"
  by (auto simp: save_def)

lemma dir_ok_save:
  "dir_ok us \<Longrightarrow> set (matches u) \<subseteq> set (likedUsers u) \<Longrightarrow> user_id u \<notin> set (matches u)
     \<Longrightarrow> dir_ok (save us u)"
  using set_save [of us u] unfolding dir_ok_def by blast

lemma dir_ok_Nil: "dir_ok []"
  by (simp add: dir_ok_def)

lemma dir_ok_found:
  "dir_ok us \<Longrightarrow> findById us i = Some u \<Longrightarrow>
     set (matches u) \<subseteq> set (likedUsers u) \<and> i \<notin> set (matches u)"
  using findById_Some_mem [of us i u] findById_Some_id [of us i u]
  unfolding dir_ok_def by blast

section \<open>The matching routes\<close>

lemma like_NotFound:
  "findById us a = None \<or> findById us b = None \<Longrightarrow> like us a b = Inl NotFound"
  by (auto simp: like_def split: option.splits)

lemma like_no_match:
  assumes "findById us a = Some cu" "findById us b = Some tu"
    "b \<notin> set (likedUsers cu)" "a \<notin> set (likedUsers tu)"
  shows "like us a b = Inr (save us (cu\<lparr>likedUsers := likedUsers cu @ [b]\<rparr>),
                            \<lparr>isMatch = False, matchedUser = None\<rparr>)"
  using assms by (simp add: like_def)

lemma like_match:
  assumes "findById us a = Some cu" "findById us b = Some tu"
    "b \<notin> set (likedUsers cu)" "a \<in> set (likedUsers tu)"
  shows "like us a b =
     Inr (save (save us (tu\<lparr>matches := matches tu @ [a]\<rparr>))
               (cu\<lparr>likedUsers := likedUsers cu @ [b], matches := matches cu @ [b]\<rparr>),
          \<lparr>isMatch = True, matchedUser = Some b\<rparr>)"
  using assms by (simp add: like_def findById_Some_id)

lemma unmatch_found:
  assumes "findById us a = Some cu" "findById us b = Some tu"
  shows "unmatch us a b =
     Inr (save (save us (cu\<lparr>matches := filter (\<lambda>i. i \<noteq> b) (matches cu),
                              likedUsers := filter (\<lambda>i. i \<noteq> b) (likedUsers cu)\<rparr>))
               (tu\<lparr>matches := filter (\<lambda>i. i \<noteq> a) (matches tu),
                   likedUsers := filter (\<lambda>i. i \<noteq> a) (likedUsers tu)\<rparr>))"
  using assms by (simp add: unmatch_def)

lemma like_Inr:
  assumes "like us a b = Inr (us1, r)"
  shows "\<exists>cu tu. findById us a = Some cu \<and> findById us b = Some tu \<and>
    b \<notin> set (likedUsers cu) \<and>
    (a \<in> set (likedUsers tu) \<longrightarrow>
       us1 = save (save us (tu\<lparr>matches := matches tu @ [a]\<rparr>))
                 (cu\<lparr>likedUsers := likedUsers cu @ [b], matches := matches cu @ [b]\<rparr>)
       \<and> r = \<lparr>isMatch = True, matchedUser = Some b\<rparr>) \<and>
    (a \<notin> set (likedUsers tu) \<longrightarrow>
       us1 = save us (cu\<lparr>likedUsers := likedUsers cu @ [b]\<rparr>)
       \<and> r = \<lparr>isMatch = False, matchedUser = None\<rparr>)"
  using assms
  by (auto simp: like_def Let_def findById_Some_id split: option.splits if_splits)

lemma dir_ok_like: "dir_ok us \<Longrightarrow> like us a b = Inr (us', r) \<Longrightarrow> dir_ok us'"
proof -
  assume ok: "dir_ok us" and l: "like us a b = Inr (us', r)"
  from l obtain cu tu where f: "findById us a = Some cu" "findById us b = Some tu"
    and nb: "b \<notin> set (likedUsers cu)"
    by (auto simp: like_def split: option.splits if_splits)
  have id: "user_id cu = a" "user_id tu = b" using f by (simp_all add: findById_Some_id)
  note ca = dir_ok_found [OF ok f(1)] and ta = dir_ok_found [OF ok f(2)]
  show "dir_ok us'"
  proof (cases "a \<in> set (likedUsers tu)")
    case True
    then have neq: "a \<noteq> b" using nb f by auto
    from True l f nb have us': "us' = save (save us (tu\<lparr>matches := matches tu @ [a]\<rparr>))
               (cu\<lparr>likedUsers := likedUsers cu @ [b], matches := matches cu @ [b]\<rparr>)"
      by (simp add: like_def)
    show ?thesis unfolding us'
      using ca ta True neq id by (intro dir_ok_save ok) auto
  next
    case False
    with l f nb have us': "us' = save us (cu\<lparr>likedUsers := likedUsers cu @ [b]\<rparr>)"
      by (simp add: like_def)
    show ?thesis unfolding us'
      using ca id by (intro dir_ok_save ok) auto
  qed
qed

lemma dir_ok_dislike:
  assumes ok: "dir_ok us" and d: "dislike us a b = Inr us'"
  shows "dir_ok us'"
proof -
  from d obtain cu where f: "findById us a = Some cu"
    and us': "us' = save us (cu\<lparr>dislikedUsers := dislikedUsers cu @ [b]\<rparr>)"
    by (auto simp: dislike_def split: option.splits if_splits)
  have id: "user_id cu = a" using f by (simp add: findById_Some_id)
  show ?thesis unfolding us'
    using dir_ok_found [OF ok f] id by (intro dir_ok_save ok) auto
qed

lemma dir_ok_unmatch:
  assumes ok: "dir_ok us" and u: "unmatch us a b = Inr us'"
  shows "dir_ok us'"
proof -
  from u obtain cu tu where f: "findById us a = Some cu" "findById us b = Some tu"
    by (auto simp: unmatch_def split: option.splits)
  have id: "user_id cu = a" "user_id tu = b" using f by (simp_all add: findById_Some_id)
  have us': "us' = save (save us (cu\<lparr>matches := filter (\<lambda>i. i \<noteq> b) (matches cu),
                              likedUsers := filter (\<lambda>i. i \<noteq> b) (likedUsers cu)\<rparr>))
               (tu\<lparr>matches := filter (\<lambda>i. i \<noteq> a) (matches tu),
                   likedUsers := filter (\<lambda>i. i \<noteq> a) (likedUsers tu)\<rparr>)"
    using u unmatch_found [OF f] by simp
  show ?thesis unfolding us'
    using dir_ok_found [OF ok f(1)] dir_ok_found [OF ok f(2)] id
    by (intro dir_ok_save ok) auto
qed

section \<open>Claims about the matching routes\<close>

text \<open>
  C1. In a consistent directory, when \<open>like(a, b)\<close> and then \<open>like(b, a)\<close> both succeed,
  the first is not a match and the second is: it appends \<open>b\<close> to \<open>a\<close>'s matches and
  \<open>a\<close> to \<open>b\<close>'s matches, so in the end state \<open>b\<close> is in \<open>a.matches\<close> exactly when
  \<open>a\<close> is in \<open>b.matches\<close>, and each occurs exactly once. The statement is symmetric in
  \<open>a\<close> and \<open>b\<close>, so it covers both orders.
\<close>

theorem like_both_ways_symmetric_match:
  assumes ok: "dir_ok us"
    and l1: "like us a b = Inr (us1, r1)"
    and l2: "like us1 b a = Inr (us2, r2)"
  shows "\<exists>ua ub ua' ub'.
           findById us a = Some ua \<and> findById us b = Some ub \<and>
           findById us2 a = Some ua' \<and> findById us2 b = Some ub' \<and>
           (b \<in> set (matches ua') \<longleftrightarrow> a \<in> set (matches ub')) \<and>
           count_list (matches ua') b = 1 \<and> count_list (matches ub') a = 1 \<and>
           matches ua' = matches ua @ [b] \<and> matches ub' = matches ub @ [a] \<and>
           \<not> isMatch r1 \<and> isMatch r2 \<and> a \<noteq> b"
proof -
  obtain ua ub where fa: "findById us a = Some ua" and fb: "findById us b = Some ub"
    and nb: "b \<notin> set (likedUsers ua)"
    and m1: "a \<in> set (likedUsers ub) \<Longrightarrow>
       us1 = save (save us (ub\<lparr>matches := matches ub @ [a]\<rparr>))
                 (ua\<lparr>likedUsers := likedUsers ua @ [b], matches := matches ua @ [b]\<rparr>)
       \<and> r1 = \<lparr>isMatch = True, matchedUser = Some b\<rparr>"
    and n1: "a \<notin> set (likedUsers ub) \<Longrightarrow>
       us1 = save us (ua\<lparr>likedUsers := likedUsers ua @ [b]\<rparr>)
       \<and> r1 = \<lparr>isMatch = False, matchedUser = None\<rparr>"
    using like_Inr [OF l1] by blast
  have ida: "user_id ua = a" and idb: "user_id ub = b"
    using fa fb by (simp_all add: findById_Some_id)
  obtain cb ta where fb1: "findById us1 b = Some cb" and fa1: "findById us1 a = Some ta"
    and na: "a \<notin> set (likedUsers cb)"
    and m2: "b \<in> set (likedUsers ta) \<Longrightarrow>
       us2 = save (save us1 (ta\<lparr>matches := matches ta @ [b]\<rparr>))
                 (cb\<lparr>likedUsers := likedUsers cb @ [a], matches := matches cb @ [a]\<rparr>)
       \<and> r2 = \<lparr>isMatch = True, matchedUser = Some a\<rparr>"
    using like_Inr [OF l2] by blast
  have nab: "a \<notin> set (likedUsers ub)"
  proof
    assume in_b: "a \<in> set (likedUsers ub)"
    with nb fa fb have "a \<noteq> b" by auto
    with m1 [OF in_b] fa fb ida idb have "findById us1 b = Some (ub\<lparr>matches := matches ub @ [a]\<rparr>)"
      by (simp add: findById_save)
    with fb1 na in_b show False by auto
  qed
  from n1 [OF nab] have us1: "us1 = save us (ua\<lparr>likedUsers := likedUsers ua @ [b]\<rparr>)"
    and r1: "r1 = \<lparr>isMatch = False, matchedUser = None\<rparr>" by simp_all
  have neq: "a \<noteq> b"
  proof
    assume "a = b"
    with us1 fa ida have "findById us1 b = Some (ua\<lparr>likedUsers := likedUsers ua @ [b]\<rparr>)"
      by (simp add: findById_save)
    with fb1 na \<open>a = b\<close> show False by auto
  qed
  have cb: "cb = ub" using fb1 us1 fb ida neq by (simp add: findById_save)
  have ta: "ta = ua\<lparr>likedUsers := likedUsers ua @ [b]\<rparr>"
    using fa1 us1 fa ida by (simp add: findById_save)
  have "b \<in> set (likedUsers ta)" by (simp add: ta)
  from m2 [OF this] have us2: "us2 = save (save us1 (ta\<lparr>matches := matches ta @ [b]\<rparr>))
                 (cb\<lparr>likedUsers := likedUsers cb @ [a], matches := matches cb @ [a]\<rparr>)"
    and r2: "r2 = \<lparr>isMatch = True, matchedUser = Some a\<rparr>" by simp_all
  have fa2: "findById us2 a = Some (ta\<lparr>matches := matches ta @ [b]\<rparr>)"
    using us2 fa1 neq ida idb by (simp add: findById_save ta cb)
  have fb2: "findById us2 b = Some (cb\<lparr>likedUsers := likedUsers cb @ [a], matches := matches cb @ [a]\<rparr>)"
    using us2 fb1 neq ida idb by (simp add: findById_save ta cb)
  have "b \<notin> set (matches ua)" using dir_ok_found [OF ok fa] nb by blast
  moreover have "a \<notin> set (matches ub)" using dir_ok_found [OF ok fb] nab by blast
  ultimately show ?thesis
    using fa fb fa2 fb2 r1 r2 neq by (simp add: ta cb count_list_0_iff)
qed


theorem like_both_ways_witness:
  "dir_ok two_users \<and>
   like two_users 1 2 =
     Inr (save two_users ((sample_user 1)\<lparr>likedUsers := [2]\<rparr>),
          \<lparr>isMatch = False, matchedUser = None\<rparr>) \<and>
   like (save two_users ((sample_user 1)\<lparr>likedUsers := [2]\<rparr>)) 2 1 =
     Inr ([(sample_user 1)\<lparr>likedUsers := [2], matches := [2]\<rparr>,
           (sample_user 2)\<lparr>likedUsers := [1], matches := [1]\<rparr>],
          \<lparr>isMatch = True, matchedUser = Some 1\<rparr>) \<and>
   (\<exists>ua ub ua' ub'.
      findById two_users 1 = Some ua \<and> findById two_users 2 = Some ub \<and>
      findById [(sample_user 1)\<lparr>likedUsers := [2], matches := [2]\<rparr>,
                (sample_user 2)\<lparr>likedUsers := [1], matches := [1]\<rparr>] 1 = Some ua' \<and>
      findById [(sample_user 1)\<lparr>likedUsers := [2], matches := [2]\<rparr>,
                (sample_user 2)\<lparr>likedUsers := [1], matches := [1]\<rparr>] 2 = Some ub' \<and>
      (2 \<in> set (matches ua') \<longleftrightarrow> 1 \<in> set (matches ub')) \<and>
      count_list (matches ua') 2 = 1 \<and> count_list (matches ub') 1 = 1 \<and>
      matches ua' = matches ua @ [2] \<and> matches ub' = matches ub @ [1])"
proof -
  have h1: "dir_ok two_users"
    by (simp add: dir_ok_def two_users_def sample_user_def)
  have h2: "like two_users 1 2 =
     Inr (save two_users ((sample_user 1)\<lparr>likedUsers := [2]\<rparr>),
          \<lparr>isMatch = False, matchedUser = None\<rparr>)"
    by (simp add: like_def findById_def two_users_def sample_user_def)
  have h3: "like (save two_users ((sample_user 1)\<lparr>likedUsers := [2]\<rparr>)) 2 1 =
     Inr ([(sample_user 1)\<lparr>likedUsers := [2], matches := [2]\<rparr>,
           (sample_user 2)\<lparr>likedUsers := [1], matches := [1]\<rparr>],
          \<lparr>isMatch = True, matchedUser = Some 1\<rparr>)"
    by (simp add: like_def findById_def save_def two_users_def sample_user_def)
  from like_both_ways_symmetric_match [OF h1 h2 h3] h1 h2 h3 show ?thesis
    by blast
qed

text \<open>
  C6. For matched users \<open>a\<close> and \<open>b\<close> of a consistent directory, \<open>unmatch(a, b)\<close>
  succeeds and filters \<open>b\<close> out of \<open>a\<close>'s matches and likes and \<open>a\<close> out of \<open>b\<close>'s;
  after it \<open>like(a, b)\<close> succeeds without a match and \<open>like(b, a)\<close> succeeds with a
  match that is recorded on both sides.
\<close>

theorem unmatch_then_relike:
  assumes ok: "dir_ok us"
    and fa: "findById us a = Some ua"
    and fb: "findById us b = Some ub"
    and mab: "b \<in> set (matches ua)"
  shows "\<exists>us1 us2 us3 ua1 ub1 ua3 ub3.
           unmatch us a b = Inr us1 \<and>
           findById us1 a = Some ua1 \<and> findById us1 b = Some ub1 \<and>
           matches ua1 = filter (\<lambda>i. i \<noteq> b) (matches ua) \<and>
           matches ub1 = filter (\<lambda>i. i \<noteq> a) (matches ub) \<and>
           likedUsers ua1 = filter (\<lambda>i. i \<noteq> b) (likedUsers ua) \<and>
           likedUsers ub1 = filter (\<lambda>i. i \<noteq> a) (likedUsers ub) \<and>
           b \<notin> set (matches ua1) \<and> a \<notin> set (matches ub1) \<and>
           b \<notin> set (likedUsers ua1) \<and> a \<notin> set (likedUsers ub1) \<and>
           like us1 a b = Inr (us2, \<lparr>isMatch = False, matchedUser = None\<rparr>) \<and>
           like us2 b a = Inr (us3, \<lparr>isMatch = True, matchedUser = Some a\<rparr>) \<and>
           findById us3 a = Some ua3 \<and> findById us3 b = Some ub3 \<and>
           b \<in> set (matches ua3) \<and> a \<in> set (matches ub3)"
proof -
  have ida: "user_id ua = a" and idb: "user_id ub = b"
    using fa fb by (simp_all add: findById_Some_id)
  have neq: "a \<noteq> b" using dir_ok_found [OF ok fa] mab by blast
  define ua1 where "ua1 = ua\<lparr>matches := filter (\<lambda>i. i \<noteq> b) (matches ua),
                              likedUsers := filter (\<lambda>i. i \<noteq> b) (likedUsers ua)\<rparr>"
  define ub1 where "ub1 = ub\<lparr>matches := filter (\<lambda>i. i \<noteq> a) (matches ub),
                              likedUsers := filter (\<lambda>i. i \<noteq> a) (likedUsers ub)\<rparr>"
  define us1 where "us1 = save (save us ua1) ub1"
  have id1: "user_id ua1 = a" "user_id ub1 = b" by (simp_all add: ua1_def ub1_def ida idb)
  have um: "unmatch us a b = Inr us1"
    unfolding us1_def ua1_def ub1_def by (rule unmatch_found [OF fa fb])
  have fa1: "findById us1 a = Some ua1" and fb1: "findById us1 b = Some ub1"
    using fa fb neq by (simp_all add: us1_def findById_save id1)
  have nl: "b \<notin> set (likedUsers ua1)" "a \<notin> set (likedUsers ub1)"
    by (simp_all add: ua1_def ub1_def)
  define ua2 where "ua2 = ua1\<lparr>likedUsers := likedUsers ua1 @ [b]\<rparr>"
  define us2 where "us2 = save us1 ua2"
  have l1: "like us1 a b = Inr (us2, \<lparr>isMatch = False, matchedUser = None\<rparr>)"
    unfolding us2_def ua2_def by (rule like_no_match [OF fa1 fb1 nl])
  have fa2: "findById us2 a = Some ua2" and fb2: "findById us2 b = Some ub1"
    using fa1 fb1 neq by (simp_all add: us2_def findById_save ua2_def id1)
  define ua3 where "ua3 = ua2\<lparr>matches := matches ua2 @ [b]\<rparr>"
  define ub3 where "ub3 = ub1\<lparr>likedUsers := likedUsers ub1 @ [a], matches := matches ub1 @ [a]\<rparr>"
  define us3 where "us3 = save (save us2 ua3) ub3"
  have "b \<in> set (likedUsers ua2)" by (simp add: ua2_def)
  then have l2: "like us2 b a = Inr (us3, \<lparr>isMatch = True, matchedUser = Some a\<rparr>)"
    unfolding us3_def ua3_def ub3_def using like_match [OF fb2 fa2 nl(2)] by simp
  have fa3: "findById us3 a = Some ua3" and fb3: "findById us3 b = Some ub3"
    using fa2 fb2 neq by (simp_all add: us3_def findById_save ua3_def ub3_def ua2_def id1)
  have "b \<in> set (matches ua3)" "a \<in> set (matches ub3)" by (simp_all add: ua3_def ub3_def)
  moreover have "matches ua1 = filter (\<lambda>i. i \<noteq> b) (matches ua)"
    "matches ub1 = filter (\<lambda>i. i \<noteq> a) (matches ub)"
    "likedUsers ua1 = filter (\<lambda>i. i \<noteq> b) (likedUsers ua)"
    "likedUsers ub1 = filter (\<lambda>i. i \<noteq> a) (likedUsers ub)"
    "b \<notin> set (matches ua1)" "a \<notin> set (matches ub1)"
    by (simp_all add: ua1_def ub1_def)
  ultimately show ?thesis using um fa1 fb1 nl l1 l2 fa3 fb3 by blast
qed


theorem unmatch_then_relike_witness:
  "dir_ok matched_users \<and>
   findById matched_users 1 = Some ((sample_user 1)\<lparr>likedUsers := [2], matches := [2]\<rparr>) \<and>
   (\<exists>us1 us2 us3 ua1 ub1 ua3 ub3.
      unmatch matched_users 1 2 = Inr us1 \<and>
      findById us1 1 = Some ua1 \<and> findById us1 2 = Some ub1 \<and>
      2 \<notin> set (matches ua1) \<and> 1 \<notin> set (matches ub1) \<and>
      2 \<notin> set (likedUsers ua1) \<and> 1 \<notin> set (likedUsers ub1) \<and>
      like us1 1 2 = Inr (us2, \<lparr>isMatch = False, matchedUser = None\<rparr>) \<and>
      like us2 2 1 = Inr (us3, \<lparr>isMatch = True, matchedUser = Some 1\<rparr>) \<and>
      findById us3 1 = Some ua3 \<and> findById us3 2 = Some ub3 \<and>
      2 \<in> set (matches ua3) \<and> 1 \<in> set (matches ub3))"
proof -
  have h1: "dir_ok matched_users"
    by (simp add: dir_ok_def matched_users_def sample_user_def)
  have h2: "findById matched_users 1 =
              Some ((sample_user 1)\<lparr>likedUsers := [2], matches := [2]\<rparr>)"
    by (simp add: findById_def matched_users_def sample_user_def)
  have h3: "findById matched_users 2 =
              Some ((sample_user 2)\<lparr>likedUsers := [1], matches := [1]\<rparr>)"
    by (simp add: findById_def matched_users_def sample_user_def)
  have h4: "2 \<in> set (matches ((sample_user 1)\<lparr>likedUsers := [2], matches := [2]\<rparr>))"
    by simp
  from unmatch_then_relike [OF h1 h2 h3 h4] h1 h2 show ?thesis
    by blast
qed

text \<open>
  C10. \<open>dislike\<close> looks up the acting user only: for an existing actor and any target id
  that is not yet in the actor's \<open>dislikedUsers\<close> it succeeds and appends the id, whether or
  not a user with that id exists. \<open>like\<close> answers \<open>NotFound\<close> when the actor or the
  target is absent.
\<close>

theorem dislike_checks_actor_only:
  assumes "findById us actor = Some cu" and "target \<notin> set (dislikedUsers cu)"
  shows "dislike us actor target =
           Inr (save us (cu\<lparr>dislikedUsers := dislikedUsers cu @ [target]\<rparr>)) \<and>
         findById (save us (cu\<lparr>dislikedUsers := dislikedUsers cu @ [target]\<rparr>)) actor =
           Some (cu\<lparr>dislikedUsers := dislikedUsers cu @ [target]\<rparr>) \<and>
         (findById us target = None \<longrightarrow> like us actor target = Inl NotFound) \<and>
         (findById us x = None \<or> findById us y = None \<longrightarrow> like us x y = Inl NotFound)"
  using assms
  by (auto simp: dislike_def like_def findById_save findById_Some_id split: option.splits)


theorem dislike_checks_actor_only_witness:
  "findById two_users 1 = Some (sample_user 1) \<and>
   77 \<notin> set (dislikedUsers (sample_user 1)) \<and>
   findById two_users 77 = None \<and>
   dislike two_users 1 77 = Inr (save two_users ((sample_user 1)\<lparr>dislikedUsers := [77]\<rparr>)) \<and>
   findById (save two_users ((sample_user 1)\<lparr>dislikedUsers := [77]\<rparr>)) 1 =
     Some ((sample_user 1)\<lparr>dislikedUsers := [77]\<rparr>) \<and>
   like two_users 1 77 = Inl NotFound \<and>
   like two_users 77 1 = Inl NotFound"
proof -
  have h1: "findById two_users 1 = Some (sample_user 1)"
    by (simp add: findById_def two_users_def sample_user_def)
  have h2: "77 \<notin> set (dislikedUsers (sample_user 1))"
    by (simp add: sample_user_def)
  have h3: "findById two_users 77 = None"
    by (simp add: findById_def two_users_def sample_user_def)
  have h4: "dislikedUsers (sample_user 1) = []"
    by (simp add: sample_user_def)
  from dislike_checks_actor_only [OF h1 h2, of 77 1] h1 h2 h3 h4 show ?thesis
    by simp
qed

section \<open>Facts about the chat collection\<close>

text \<open>
  Lookup after a save, the effect of \<open>mark\<close> on one message, the newest-first sort of a
  chronologically stored list, and the window that \<open>slice\<close> cuts for a page.
\<close>

lemma findChat_Some_id: "findChat cs i = Some c \<Longrightarrow> chat_id c = i"
  by (auto simp: findChat_def find_Some_iff)

lemma findChat_Some_mem: "findChat cs i = Some c \<Longrightarrow> c \<in> set cs"
  by (auto simp: findChat_def find_Some_iff)

lemma findChat_replace:
  "findChat (map (\<lambda>x. if chat_id x = chat_id c then c else x) cs) i =
     (if i = chat_id c then (if findChat cs i = None then None else Some c) else findChat cs i)"
  unfolding findChat_def by (induction cs) auto

lemma replace_idem:
  "map (\<lambda>x. if chat_id x = chat_id c then c else x)
       (map (\<lambda>x. if chat_id x = chat_id c then c' else x) cs) =
   map (\<lambda>x. if chat_id x = chat_id c then c else x) cs" if "chat_id c' = chat_id c"
  using that by (induction cs) auto

lemma mark_has_read: "\<exists>r \<in> set (readBy (mark me clock m)). read_user r = me"
  by (auto simp: mark_def)

lemma mark_idem: "mark me clock2 (mark me clock1 m) = mark me clock1 m"
  by (auto simp: mark_def)

lemma mark_count:
  "length (filter (\<lambda>r. read_user r = me) (readBy (mark me clock m))) =
     max 1 (length (filter (\<lambda>r. read_user r = me) (readBy m)))"
  by (auto simp: mark_def filter_empty_conv max_def Suc_le_eq length_greater_0_conv
      simp del: length_greater_0_conv)

lemma mark_distinct:
  "distinct (map read_user (readBy m)) \<Longrightarrow> distinct (map read_user (readBy (mark me clock m)))"
  by (auto simp: mark_def)

lemma last_filter_keep:
  "xs \<noteq> [] \<Longrightarrow> P (last xs) \<Longrightarrow> filter P xs \<noteq> [] \<and> last (filter P xs) = last xs"
  by (induction xs) (auto split: if_splits)

lemma find_Some_nonempty: "find P xs = Some x \<Longrightarrow> xs \<noteq> []"
  by (cases xs) auto

lemma insort_key_at_end:
  "\<forall>y \<in> set ys. f y < f x \<Longrightarrow> insort_key f x ys = ys @ [x]"
  by (induction ys) auto

lemma newest_first_rev:
  "sorted_wrt (<) (map createdAt xs) \<Longrightarrow> sort_key (\<lambda>m. - createdAt m) xs = rev xs"
proof (induction xs)
  case Nil
  then show ?case by simp
next
  case (Cons x xs)
  then have lt: "\<forall>y \<in> set (rev xs). - createdAt y < - createdAt x" by auto
  from Cons have "sort_key (\<lambda>m. - createdAt m) xs = rev xs" by simp
  then show ?case using insort_key_at_end [OF lt] by simp
qed

lemma js_slice_window:
  "0 \<le> skip \<Longrightarrow> 0 \<le> limit \<Longrightarrow>
     js_slice xs skip (skip + limit) = take (nat limit) (drop (nat skip) xs)"
proof -
  assume s: "0 \<le> skip" and l: "0 \<le> limit"
  let ?n = "int (length xs)"
  show ?thesis
  proof (cases "skip \<le> ?n")
    case True
    have "take (nat (min (skip + limit) ?n - skip)) (drop (nat skip) xs) =
          take (nat limit) (drop (nat skip) xs)"
    proof (cases "skip + limit \<le> ?n")
      case True
      then show ?thesis by (simp add: min_def)
    next
      case False
      then have "nat (?n - skip) = length (drop (nat skip) xs)" "nat (?n - skip) \<le> nat limit"
        using s by auto
      then show ?thesis using False by (simp add: min_def)
    qed
    then show ?thesis using s l True by (simp add: js_slice_def Let_def min_def)
  next
    case False
    then show ?thesis using s l by (simp add: js_slice_def Let_def min_def)
  qed
qed

lemma newest_first_sorted:
  "sorted (map (\<lambda>m. - createdAt m) (sort_key (\<lambda>m. - createdAt m) xs))"
  by (rule sorted_sort_key)

lemma sorted_neg_rev:
  "sorted (map (\<lambda>m. - createdAt m) ys) \<Longrightarrow> sorted (map createdAt (rev ys))"
  by (induction ys) (auto simp: sorted_append)

lemma sorted_map_take_drop:
  "sorted (map f ys) \<Longrightarrow> sorted (map f (take n (drop k ys)))"
  by (simp add: take_map [symmetric] drop_map [symmetric] sorted_wrt_take sorted_wrt_drop)

lemma window_of_rev:
  "rev (take l (drop s (rev xs))) = drop (length xs - s - l) (take (length xs - s) xs)"
  by (simp add: drop_rev take_rev)

lemma receipts_ok_markRead:
  assumes "findChat cs chatId = Some chat" "receipts_ok chat"
    "markRead cs chatId me clock = Inr cs'" "findChat cs' chatId = Some chat'"
  shows "receipts_ok chat'"
proof -
  have id: "chat_id chat = chatId" using assms(1) by (rule findChat_Some_id)
  let ?c = "chat\<lparr>messages := map (mark me clock) (messages chat)\<rparr>"
  from assms(1,3) have "cs' = map (\<lambda>x. if chat_id x = chat_id ?c then ?c else x) cs"
    by (auto simp: markRead_def updateChat_def split: if_splits)
  with assms(1,4) findChat_replace [of ?c cs chatId] id have "chat' = ?c" by simp
  then show ?thesis using assms(2) by (auto simp: receipts_ok_def mark_distinct)
qed

lemma receipts_ok_sendMessage:
  assumes "findChat cs chatId = Some chat" "receipts_ok chat"
    "sendMessage cs chatId me body mt new_id t1 t2 t3 = Inr (cs', msg)"
    "findChat cs' chatId = Some chat'"
  shows "receipts_ok chat'"
proof -
  have id: "chat_id chat = chatId" using assms(1) by (rule findChat_Some_id)
  let ?c = "chat\<lparr>messages := messages chat @ [msg],
                  lastMessage := Some \<lparr>lm_content = Some (trim body), lm_sender = Some me,
                                       lm_timestamp = t2\<rparr>\<rparr>"
  from assms(1,3) have m: "readBy msg = [\<lparr>read_user = me, readAt = t1\<rparr>]"
    and "cs' = map (\<lambda>x. if chat_id x = chat_id ?c then ?c else x) cs"
    by (auto simp: sendMessage_def Let_def updateChat_def split: if_splits)
  with assms(1,4) findChat_replace [of ?c cs chatId] id have "chat' = ?c" by simp
  then show ?thesis using assms(2) m by (auto simp: receipts_ok_def)
qed

lemma receipts_ok_count:
  "receipts_ok c \<Longrightarrow> m \<in> set (messages c) \<Longrightarrow>
     length (filter (\<lambda>r. read_user r = me) (readBy m)) \<le> 1"
proof -
  assume "receipts_ok c" "m \<in> set (messages c)"
  then have d: "distinct (map read_user (readBy m))" by (simp add: receipts_ok_def)
  have "distinct (map read_user rs) \<Longrightarrow> length (filter (\<lambda>r. read_user r = me) rs) \<le> 1" for rs
    by (induction rs) (auto simp: filter_empty_conv image_iff)
  from this [OF d] show ?thesis .
qed

lemma long_chat_sorted: "sorted_wrt (<) (map createdAt (messages long_chat))"
  by (simp add: long_chat_def sample_message_def sorted_wrt_map comp_def)

section \<open>Claims about the chat routes\<close>

text \<open>
  C2. For existing users \<open>a\<close> and \<open>b\<close>, \<open>getOrCreate\<close> answers \<open>NotMatched\<close> unless
  \<open>b\<close> is in \<open>a\<close>'s matches. For a matched pair it returns a chat that has both as
  participants: the stored one when there is one (the collection is unchanged), a new one
  with participants \<open>[a, b]\<close> otherwise. A consistent collection stays consistent: every
  chat has exactly two participants and no two chats have the same participant set.
\<close>

theorem getOrCreate_unique:
  assumes fa: "findById us a = Some ua" and fb: "findById us b = Some ub"
  shows "(b \<notin> set (matches ua) \<longrightarrow> getOrCreate us cs a b new_id now = Inl NotMatched) \<and>
         (b \<in> set (matches ua) \<longrightarrow>
            (\<exists>cs' c. getOrCreate us cs a b new_id now = Inr (cs', c) \<and>
               c \<in> set cs' \<and>
               a \<in> set (participants c) \<and> b \<in> set (participants c) \<and>
               ((\<exists>c0 \<in> set cs. a \<in> set (participants c0) \<and> b \<in> set (participants c0)) \<longrightarrow>
                  cs' = cs \<and> c \<in> set cs) \<and>
               ((\<forall>c0 \<in> set cs. \<not> (a \<in> set (participants c0) \<and> b \<in> set (participants c0))) \<longrightarrow>
                  cs' = cs @ [c] \<and> participants c = [a, b]) \<and>
               (chats_ok cs \<longrightarrow>
                  chats_ok cs' \<and> length (participants c) = 2 \<and>
                  (\<forall>c1 \<in> set cs'. \<forall>c2 \<in> set cs'.
                     set (participants c1) = set (participants c2) \<longrightarrow> c1 = c2))))"
proof (intro conjI impI)
  assume "b \<notin> set (matches ua)"
  then show "getOrCreate us cs a b new_id now = Inl NotMatched"
    using fa fb by (simp add: getOrCreate_def)
next
  assume mt: "b \<in> set (matches ua)"
  let ?P = "\<lambda>c. a \<in> set (participants c) \<and> b \<in> set (participants c)"
  let ?new = "\<lparr>chat_id = new_id, participants = [a, b], messages = [],
                lastMessage = Some \<lparr>lm_content = None, lm_sender = None, lm_timestamp = now\<rparr>,
                isActive = True\<rparr>"
  have inj: "\<forall>c1 \<in> set xs. \<forall>c2 \<in> set xs. set (participants c1) = set (participants c2) \<longrightarrow> c1 = c2"
    if "chats_ok xs" for xs
    using that unfolding chats_ok_def by (auto simp: distinct_map inj_on_def)
  show "\<exists>cs' c. getOrCreate us cs a b new_id now = Inr (cs', c) \<and>
               c \<in> set cs' \<and>
               a \<in> set (participants c) \<and> b \<in> set (participants c) \<and>
               ((\<exists>c0 \<in> set cs. a \<in> set (participants c0) \<and> b \<in> set (participants c0)) \<longrightarrow>
                  cs' = cs \<and> c \<in> set cs) \<and>
               ((\<forall>c0 \<in> set cs. \<not> (a \<in> set (participants c0) \<and> b \<in> set (participants c0))) \<longrightarrow>
                  cs' = cs @ [c] \<and> participants c = [a, b]) \<and>
               (chats_ok cs \<longrightarrow>
                  chats_ok cs' \<and> length (participants c) = 2 \<and>
                  (\<forall>c1 \<in> set cs'. \<forall>c2 \<in> set cs'.
                     set (participants c1) = set (participants c2) \<longrightarrow> c1 = c2))"
  proof (cases "find ?P cs")
    case None
    then have none: "\<forall>c0 \<in> set cs. \<not> ?P c0" by (auto simp: find_None_iff)
    have g: "getOrCreate us cs a b new_id now = Inr (cs @ [?new], ?new)"
      using fa fb mt None by (simp add: getOrCreate_def insertChat_def pre_save_def Let_def)
    have ok: "chats_ok (cs @ [?new])" if "chats_ok cs"
      using that none unfolding chats_ok_def by auto
    show ?thesis
      using g none ok inj [of "cs @ [?new]"]
      by (intro exI [of _ "cs @ [?new]"] exI [of _ ?new]) auto
  next
    case (Some c)
    then have c: "c \<in> set cs" "?P c" by (auto simp: find_Some_iff)
    have g: "getOrCreate us cs a b new_id now = Inr (cs, c)"
      using fa fb mt Some by (simp add: getOrCreate_def)
    show ?thesis
      using g c inj [of cs]
      by (intro exI [of _ cs] exI [of _ c]) (auto simp: chats_ok_def)
  qed
qed

theorem getOrCreate_unique_witness:
  "getOrCreate two_users [] 1 2 9 50 = Inl NotMatched \<and>
   (\<exists>cs' c. getOrCreate matched_users [] 1 2 9 50 = Inr (cs', c) \<and>
      cs' = [c] \<and> participants c = [1, 2] \<and> chats_ok cs') \<and>
   (\<exists>c. getOrCreate matched_users [empty_chat] 1 2 9 50 = Inr ([empty_chat], c) \<and>
      c \<in> set [empty_chat] \<and> length (participants c) = 2 \<and> chats_ok [empty_chat])"
proof -
  have t1: "findById two_users 1 = Some (sample_user 1)"
    and t2: "findById two_users 2 = Some (sample_user 2)"
    by (simp_all add: findById_def two_users_def sample_user_def)
  have n: "2 \<notin> set (matches (sample_user 1))" by (simp add: sample_user_def)
  have m1: "findById matched_users 1 = Some ((sample_user 1)\<lparr>likedUsers := [2], matches := [2]\<rparr>)"
    and m2: "findById matched_users 2 = Some ((sample_user 2)\<lparr>likedUsers := [1], matches := [1]\<rparr>)"
    by (simp_all add: findById_def matched_users_def sample_user_def)
  have y: "2 \<in> set (matches ((sample_user 1)\<lparr>likedUsers := [2], matches := [2]\<rparr>))" by simp
  have e: "chats_ok []" "chats_ok [empty_chat]"
    "\<exists>c0 \<in> set [empty_chat]. 1 \<in> set (participants c0) \<and> 2 \<in> set (participants c0)"
    by (simp_all add: chats_ok_def empty_chat_def)
  from getOrCreate_unique [OF t1 t2, of "[]" 9 50] n
  have a: "getOrCreate two_users [] 1 2 9 50 = Inl NotMatched" by blast
  from getOrCreate_unique [OF m1 m2, of "[]" 9 50] y e(1)
  have b: "\<exists>cs' c. getOrCreate matched_users [] 1 2 9 50 = Inr (cs', c) \<and>
      cs' = [c] \<and> participants c = [1, 2] \<and> chats_ok cs'" by auto
  from getOrCreate_unique [OF m1 m2, of "[empty_chat]" 9 50] y e(2,3)
  have c: "\<exists>c. getOrCreate matched_users [empty_chat] 1 2 9 50 = Inr ([empty_chat], c) \<and>
      c \<in> set [empty_chat] \<and> length (participants c) = 2 \<and> chats_ok [empty_chat]"
    by auto
  from a b c show ?thesis by blast
qed

text \<open>
  C5. For a participant, a page number of at least 1 and a non-negative page size,
  \<open>listMessages\<close> sorts newest first, skips \<open>(page - 1) * limit\<close> messages from the newest
  end, keeps \<open>limit\<close> of them and returns them reversed, that is in ascending order of
  \<open>createdAt\<close>; \<open>hasMore\<close> holds exactly when the message count exceeds
  \<open>skip + limit\<close>. When the stored messages are in strictly ascending order of
  \<open>createdAt\<close>, the page is the corresponding window of the stored list; with 120
  messages and page size 50, page 1 is the last 50 messages with \<open>hasMore\<close>, and page 3
  is the first 20 without.
\<close>

theorem listMessages_pagination:
  assumes f: "findChat cs chatId = Some chat"
    and p: "requester \<in> set (participants chat)"
    and pg1: "1 \<le> page" and lim: "0 \<le> limit"
  shows "\<exists>pg. listMessages cs chatId requester page limit = Inr pg \<and>
           (hasMore pg \<longleftrightarrow> int (length (messages chat)) > (page - 1) * limit + limit) \<and>
           page_messages pg =
             rev (take (nat limit) (drop (nat ((page - 1) * limit))
                    (sort_key (\<lambda>m. - createdAt m) (messages chat)))) \<and>
           sorted (map (\<lambda>m. - createdAt m) (sort_key (\<lambda>m. - createdAt m) (messages chat))) \<and>
           sorted (map createdAt (page_messages pg)) \<and>
           (sorted_wrt (<) (map createdAt (messages chat)) \<longrightarrow>
              page_messages pg =
                drop (length (messages chat) - nat ((page - 1) * limit) - nat limit)
                     (take (length (messages chat) - nat ((page - 1) * limit)) (messages chat))) \<and>
           (sorted_wrt (<) (map createdAt (messages chat)) \<and> length (messages chat) = 120 \<and>
            limit = 50 \<longrightarrow>
              (page = 1 \<longrightarrow> page_messages pg = drop 70 (messages chat) \<and> hasMore pg) \<and>
              (page = 3 \<longrightarrow> page_messages pg = take 20 (messages chat) \<and> \<not> hasMore pg))"
proof -
  let ?skip = "(page - 1) * limit"
  let ?desc = "sort_key (\<lambda>m. - createdAt m) (messages chat)"
  let ?msgs = "rev (take (nat limit) (drop (nat ?skip) ?desc))"
  let ?pg = "\<lparr>page_messages = ?msgs,
              hasMore = (int (length (messages chat)) > ?skip + limit)\<rparr>"
  have sk: "0 \<le> ?skip" using pg1 lim by simp
  have l: "listMessages cs chatId requester page limit = Inr ?pg"
    using f p js_slice_window [OF sk lim, of ?desc]
    by (simp add: listMessages_def Let_def)
  have srt: "sorted (map createdAt ?msgs)"
    by (intro sorted_neg_rev sorted_map_take_drop newest_first_sorted)
  have win: "?msgs = drop (length (messages chat) - nat ?skip - nat limit)
                     (take (length (messages chat) - nat ?skip) (messages chat))"
    if "sorted_wrt (<) (map createdAt (messages chat))"
    using newest_first_rev [OF that] by (simp add: window_of_rev)
  have inst: "(page = 1 \<longrightarrow> ?msgs = drop 70 (messages chat)) \<and>
              (page = 3 \<longrightarrow> ?msgs = take 20 (messages chat))"
    if s: "sorted_wrt (<) (map createdAt (messages chat))" and n: "length (messages chat) = 120"
      and l50: "limit = 50"
    using win [OF s] n l50 by auto
  show ?thesis
    using l srt win inst newest_first_sorted [of "messages chat"]
    by (intro exI [of _ ?pg]) auto
qed

theorem listMessages_pagination_witness:
  "sorted_wrt (<) (map createdAt (messages long_chat)) \<and>
   length (messages long_chat) = 120 \<and>
   (\<exists>pg. listMessages [long_chat] 7 1 1 50 = Inr pg \<and>
      page_messages pg = drop 70 (messages long_chat) \<and> hasMore pg) \<and>
   (\<exists>pg. listMessages [long_chat] 7 1 3 50 = Inr pg \<and>
      page_messages pg = take 20 (messages long_chat) \<and> \<not> hasMore pg)"
proof -
  have f: "findChat [long_chat] 7 = Some long_chat"
    by (simp add: findChat_def long_chat_def)
  have p: "1 \<in> set (participants long_chat)" by (simp add: long_chat_def)
  have n: "length (messages long_chat) = 120" by (simp add: long_chat_def)
  note s = long_chat_sorted
  from listMessages_pagination [OF f p, of 1 50] s n
  have a: "\<exists>pg. listMessages [long_chat] 7 1 1 50 = Inr pg \<and>
      page_messages pg = drop 70 (messages long_chat) \<and> hasMore pg" by auto
  from listMessages_pagination [OF f p, of 3 50] s n
  have b: "\<exists>pg. listMessages [long_chat] 7 1 3 50 = Inr pg \<and>
      page_messages pg = take 20 (messages long_chat) \<and> \<not> hasMore pg" by auto
  from a b s n show ?thesis by blast
qed

text \<open>
  C7, as amended. When the requester wrote the message, \<open>deleteMessage\<close> removes it and
  sets \<open>lastMessage\<close> from the last remaining message: absent when none remains (so
  deleting the only message clears it), and otherwise the content, sender and \<open>createdAt\<close>
  of that message. When the deleted message is not the last one, the last message is the
  same as before, and \<open>lastMessage\<close> is unchanged exactly when it already held that
  message's content, sender and \<open>createdAt\<close>.
\<close>

theorem deleteMessage_lastMessage:
  assumes f: "findChat cs chatId = Some chat"
    and p: "me \<in> set (participants chat)"
    and two: "length (participants chat) = 2"
    and m: "find (\<lambda>m. message_id m = messageId) (messages chat) = Some msg"
    and own: "sender msg = me"
  shows "\<exists>cs' chat'.
           deleteMessage cs chatId messageId me = Inr cs' \<and>
           findChat cs' chatId = Some chat' \<and>
           messages chat' = filter (\<lambda>m. message_id m \<noteq> messageId) (messages chat) \<and>
           lastMessage chat' =
             (if messages chat' = [] then None else Some (mirror (last (messages chat')))) \<and>
           (messages chat = [msg] \<longrightarrow> messages chat' = [] \<and> lastMessage chat' = None) \<and>
           (messageId \<noteq> message_id (last (messages chat)) \<longrightarrow>
              last (messages chat') = last (messages chat) \<and>
              lastMessage chat' = Some (mirror (last (messages chat))) \<and>
              (lastMessage chat' = lastMessage chat \<longleftrightarrow>
                 lastMessage chat = Some (mirror (last (messages chat)))))"
proof -
  define remaining where "remaining = filter (\<lambda>m. message_id m \<noteq> messageId) (messages chat)"
  define chat' where "chat' = chat\<lparr>messages := remaining,
     lastMessage := (if remaining = [] then None else Some (mirror (last remaining)))\<rparr>"
  define cs' where "cs' = map (\<lambda>x. if chat_id x = chat_id chat' then chat' else x) cs"
  have id: "chat_id chat = chatId" using f by (rule findChat_Some_id)
  have id': "chat_id chat' = chatId" by (simp add: chat'_def id)
  have ps: "pre_save chat'" by (simp add: pre_save_def chat'_def two)
  have d: "deleteMessage cs chatId messageId me = Inr cs'"
    using f p m own ps
    by (auto simp: deleteMessage_def Let_def updateChat_def cs'_def chat'_def remaining_def
                   pre_save_def)
  have f': "findChat cs' chatId = Some chat'"
    using f findChat_replace [of chat' cs chatId] by (simp add: cs'_def id')
  have msgs: "messages chat' = remaining" and lm: "lastMessage chat' =
             (if messages chat' = [] then None else Some (mirror (last (messages chat'))))"
    by (simp_all add: chat'_def)
  have ne: "messages chat \<noteq> []" using m by (rule find_Some_nonempty)
  have only: "messages chat = [msg] \<longrightarrow> messages chat' = [] \<and> lastMessage chat' = None"
  proof
    assume one: "messages chat = [msg]"
    with m have "message_id msg = messageId" by (simp split: if_splits)
    with one show "messages chat' = [] \<and> lastMessage chat' = None"
      by (simp add: chat'_def remaining_def)
  qed
  have notlast: "messageId \<noteq> message_id (last (messages chat)) \<longrightarrow>
              last (messages chat') = last (messages chat) \<and>
              lastMessage chat' = Some (mirror (last (messages chat))) \<and>
              (lastMessage chat' = lastMessage chat \<longleftrightarrow>
                 lastMessage chat = Some (mirror (last (messages chat))))"
  proof
    assume nl: "messageId \<noteq> message_id (last (messages chat))"
    have "remaining \<noteq> [] \<and> last remaining = last (messages chat)"
      unfolding remaining_def using ne nl by (intro last_filter_keep) auto
    then show "last (messages chat') = last (messages chat) \<and>
              lastMessage chat' = Some (mirror (last (messages chat))) \<and>
              (lastMessage chat' = lastMessage chat \<longleftrightarrow>
                 lastMessage chat = Some (mirror (last (messages chat))))"
      by (auto simp: chat'_def)
  qed
  from d f' msgs lm only notlast show ?thesis unfolding remaining_def by blast
qed

theorem deleteMessage_lastMessage_witness:
  "(\<exists>cs' chat'.
      deleteMessage [one_message_chat] 7 100 1 = Inr cs' \<and>
      findChat cs' 7 = Some chat' \<and> messages chat' = [] \<and> lastMessage chat' = None) \<and>
   (\<exists>cs' chat'.
      deleteMessage [two_message_chat] 7 100 1 = Inr cs' \<and>
      findChat cs' 7 = Some chat' \<and>
      messages chat' = [second_message] \<and>
      lastMessage chat' = Some (mirror second_message))"
proof -
  have a1: "findChat [one_message_chat] 7 = Some one_message_chat"
    by (simp add: findChat_def one_message_chat_def)
  have a2: "1 \<in> set (participants one_message_chat)" "length (participants one_message_chat) = 2"
    by (simp_all add: one_message_chat_def)
  have a3: "find (\<lambda>m. message_id m = 100) (messages one_message_chat) = Some first_message"
    by (simp add: one_message_chat_def first_message_def)
  have a4: "sender first_message = 1" by (simp add: first_message_def)
  have a5: "messages one_message_chat = [first_message]" by (simp add: one_message_chat_def)
  have b1: "findChat [two_message_chat] 7 = Some two_message_chat"
    by (simp add: findChat_def two_message_chat_def)
  have b2: "1 \<in> set (participants two_message_chat)" "length (participants two_message_chat) = 2"
    by (simp_all add: two_message_chat_def)
  have b3: "find (\<lambda>m. message_id m = 100) (messages two_message_chat) = Some first_message"
    by (simp add: two_message_chat_def first_message_def)
  have b5: "100 \<noteq> message_id (last (messages two_message_chat))"
    "filter (\<lambda>m. message_id m \<noteq> 100) (messages two_message_chat) = [second_message]"
    "last (messages two_message_chat) = second_message"
    by (simp_all add: two_message_chat_def first_message_def second_message_def)
  from deleteMessage_lastMessage [OF a1 a2 a3 a4] a5
  have one: "\<exists>cs' chat'.
      deleteMessage [one_message_chat] 7 100 1 = Inr cs' \<and>
      findChat cs' 7 = Some chat' \<and> messages chat' = [] \<and> lastMessage chat' = None"
    by blast
  from deleteMessage_lastMessage [OF b1 b2 b3 a4] b5
  have two: "\<exists>cs' chat'.
      deleteMessage [two_message_chat] 7 100 1 = Inr cs' \<and>
      findChat cs' 7 = Some chat' \<and>
      messages chat' = [second_message] \<and>
      lastMessage chat' = Some (mirror second_message)"
    by auto
  from one two show ?thesis by blast
qed

text \<open>
  C7 as stated fails: \<open>sendMessage\<close> stamps \<open>lastMessage\<close> with its own clock reading,
  the message gets its \<open>createdAt\<close> when the chat is saved, and deleting an earlier
  message replaces the former by the latter. Here the second message is sent at 2000 and
  saved at 2001; deleting the first message changes \<open>lastMessage.timestamp\<close>.
\<close>

theorem deleteMessage_unchanged_counterexample:
  "sendMessage [empty_chat] 7 1 ''hello'' None 100 1000 1000 1000 =
     Inr ([one_message_chat], first_message) \<and>
   sendMessage [one_message_chat] 7 2 ''hi'' None 101 2000 2000 2001 =
     Inr ([two_message_chat], second_message) \<and>
   last (messages two_message_chat) = second_message \<and>
   message_id second_message \<noteq> 100 \<and>
   deleteMessage [two_message_chat] 7 100 1 = Inr [after_delete_chat] \<and>
   lastMessage two_message_chat =
     Some \<lparr>lm_content = Some ''hi'', lm_sender = Some 2, lm_timestamp = 2000\<rparr> \<and>
   lastMessage after_delete_chat =
     Some \<lparr>lm_content = Some ''hi'', lm_sender = Some 2, lm_timestamp = 2001\<rparr> \<and>
   lastMessage after_delete_chat \<noteq> lastMessage two_message_chat"
  by (simp add: sendMessage_def deleteMessage_def findChat_def updateChat_def pre_save_def
      trim_def is_space_def mirror_def Let_def
      empty_chat_def one_message_chat_def two_message_chat_def after_delete_chat_def
      first_message_def second_message_def)

text \<open>
  C9. When \<open>markRead\<close> succeeds, every message of the chat has a read receipt of the
  requester, exactly one if no message had more than one before, and a second
  \<open>markRead\<close> right after it succeeds and leaves the collection unchanged.
\<close>

theorem markRead_idempotent:
  assumes first: "markRead cs chatId me clock1 = Inr cs1"
  shows "\<exists>chat chat1.
           findChat cs chatId = Some chat \<and> findChat cs1 chatId = Some chat1 \<and>
           messages chat1 = map (mark me clock1) (messages chat) \<and>
           (\<forall>m \<in> set (messages chat1). \<exists>r \<in> set (readBy m). read_user r = me) \<and>
           ((\<forall>m \<in> set (messages chat).
               length (filter (\<lambda>r. read_user r = me) (readBy m)) \<le> 1) \<longrightarrow>
            (\<forall>m \<in> set (messages chat1).
               length (filter (\<lambda>r. read_user r = me) (readBy m)) = 1)) \<and>
           markRead cs1 chatId me clock2 = Inr cs1"
proof -
  from first obtain chat where f: "findChat cs chatId = Some chat"
    and p: "me \<in> set (participants chat)"
    and u: "updateChat cs (chat\<lparr>messages := map (mark me clock1) (messages chat)\<rparr>) = Inr cs1"
    by (auto simp: markRead_def split: option.splits if_splits)
  define chat1 where "chat1 = chat\<lparr>messages := map (mark me clock1) (messages chat)\<rparr>"
  have id: "chat_id chat = chatId" using f by (rule findChat_Some_id)
  have id1: "chat_id chat1 = chatId" by (simp add: chat1_def id)
  from u have ps: "pre_save chat1"
    and cs1: "cs1 = map (\<lambda>x. if chat_id x = chat_id chat1 then chat1 else x) cs"
    by (auto simp: updateChat_def chat1_def split: if_splits)
  have f1: "findChat cs1 chatId = Some chat1"
    using f findChat_replace [of chat1 cs chatId] by (simp add: cs1 id1)
  have again: "chat1\<lparr>messages := map (mark me clock2) (messages chat1)\<rparr> = chat1"
    by (simp add: chat1_def mark_idem)
  have "updateChat cs1 chat1 = Inr cs1"
    using ps replace_idem [of chat1 chat1 cs] by (simp add: updateChat_def cs1)
  then have second: "markRead cs1 chatId me clock2 = Inr cs1"
    using f1 p by (simp add: markRead_def again) (simp add: chat1_def)
  have m1: "messages chat1 = map (mark me clock1) (messages chat)" by (simp add: chat1_def)
  have a: "\<forall>m \<in> set (messages chat1). \<exists>r \<in> set (readBy m). read_user r = me"
    by (auto simp: m1 mark_has_read)
  have b: "(\<forall>m \<in> set (messages chat).
               length (filter (\<lambda>r. read_user r = me) (readBy m)) \<le> 1) \<longrightarrow>
            (\<forall>m \<in> set (messages chat1).
               length (filter (\<lambda>r. read_user r = me) (readBy m)) = 1)"
    by (auto simp: m1 mark_count)
  from f f1 m1 a b second show ?thesis by blast
qed

theorem markRead_idempotent_witness:
  "markRead [two_message_chat] 7 2 (\<lambda>m. 3000) = Inr [marked_chat] \<and>
   map (\<lambda>m. length (filter (\<lambda>r. read_user r = 2) (readBy m))) (messages two_message_chat)
     = [0, 1] \<and>
   map (\<lambda>m. length (filter (\<lambda>r. read_user r = 2) (readBy m))) (messages marked_chat)
     = [1, 1] \<and>
   markRead [marked_chat] 7 2 (\<lambda>m. 4000) = Inr [marked_chat]"
proof -
  have h: "markRead [two_message_chat] 7 2 (\<lambda>m. 3000) = Inr [marked_chat]"
    by (simp add: markRead_def findChat_def updateChat_def pre_save_def mark_def
        two_message_chat_def marked_chat_def first_message_def second_message_def)
  have f0: "findChat [two_message_chat] 7 = Some two_message_chat"
    by (simp add: findChat_def two_message_chat_def)
  have f1: "findChat [marked_chat] 7 = Some marked_chat"
    by (simp add: findChat_def marked_chat_def)
  have before: "map (\<lambda>m. length (filter (\<lambda>r. read_user r = 2) (readBy m)))
                  (messages two_message_chat) = [0, 1]"
    by (simp add: two_message_chat_def first_message_def second_message_def)
  have shape: "\<exists>m1 m2. messages marked_chat = [m1, m2]"
    by (simp add: marked_chat_def)
  have le: "\<forall>m \<in> set (messages two_message_chat).
      length (filter (\<lambda>r. read_user r = 2) (readBy m)) \<le> 1"
    by (simp add: two_message_chat_def first_message_def second_message_def)
  from markRead_idempotent [OF h, of "\<lambda>m. 4000"] f0 f1 le
  have after: "\<forall>m \<in> set (messages marked_chat).
      length (filter (\<lambda>r. read_user r = 2) (readBy m)) = 1"
    and again: "markRead [marked_chat] 7 2 (\<lambda>m. 4000) = Inr [marked_chat]"
    by auto
  from shape after
  have "map (\<lambda>m. length (filter (\<lambda>r. read_user r = 2) (readBy m))) (messages marked_chat)
          = [1, 1]"
    by auto
  with h before again show ?thesis by blast
qed

section \<open>Facts about the distance function\<close>

text \<open>
  Bounds on \<open>\<pi>\<close> from the sign of the sine at two decimals, the values of
  \<open>calculateDistance\<close> the claims name, and the range of the haversine term: it lies in
  \<open>[0, 1]\<close>, so both square roots of \<open>calculateDistance\<close> are taken of non-negative
  numbers.
\<close>

lemma lessThan_18: "{..<18::nat} = {0,1,2,3,4,5,6,7,8,9,10,11,12,13,14,15,16,17}"
  by auto arith

lemma sin_coeff_vals:
  "sin_coeff (Suc 0) = 1"
  "sin_coeff 1 = 1" "sin_coeff 2 = 0" "sin_coeff 3 = - 1 / 6" "sin_coeff 4 = 0"
  "sin_coeff 5 = 1 / 120" "sin_coeff 6 = 0" "sin_coeff 7 = - 1 / 5040" "sin_coeff 8 = 0"
  "sin_coeff 9 = 1 / 362880" "sin_coeff 10 = 0" "sin_coeff 11 = - 1 / 39916800"
  "sin_coeff 12 = 0" "sin_coeff 13 = 1 / 6227020800" "sin_coeff 14 = 0"
  "sin_coeff 15 = - 1 / 1307674368000" "sin_coeff 16 = 0"
  "sin_coeff 17 = 1 / 355687428096000"
  by (simp_all add: sin_coeff_def fact_numeral)


lemma sin_partial_18: "(\<Sum>m<18. sin_coeff m * x ^ m) = sin_poly x"
  unfolding lessThan_18 sin_poly_def by (simp add: sin_coeff_vals)

lemma sin_near_poly: "\<bar>sin x - sin_poly x\<bar> \<le> inverse (fact 18) * \<bar>x\<bar> ^ 18"
  using Maclaurin_sin_bound [of x 18] by (simp only: sin_partial_18)

lemma abs_bound_pos: "\<bar>s - p\<bar> \<le> e \<Longrightarrow> e < p \<Longrightarrow> 0 < s" for s :: real
  by arith

lemma abs_bound_neg: "\<bar>s - p\<bar> \<le> e \<Longrightarrow> e < - p \<Longrightarrow> s < 0" for s :: real
  by arith

lemma sin_pos_below_pi: "0 < sin (314158 / 100000 :: real)"
proof (rule abs_bound_pos [OF sin_near_poly])
  show "inverse (fact 18) * \<bar>314158 / 100000 :: real\<bar> ^ 18 < sin_poly (314158 / 100000)"
    unfolding sin_poly_def by (simp add: power_divide fact_numeral)
qed

lemma sin_neg_above_pi: "sin (31416 / 10000 :: real) < 0"
proof (rule abs_bound_neg [OF sin_near_poly])
  show "inverse (fact 18) * \<bar>31416 / 10000 :: real\<bar> ^ 18 < - sin_poly (31416 / 10000)"
    unfolding sin_poly_def by (simp add: power_divide fact_numeral)
qed

lemma pi_lower: "314158 / 100000 < pi"
proof (rule ccontr)
  assume "\<not> 314158 / 100000 < pi"
  then have "pi \<le> 314158 / 100000" by simp
  moreover have "(314158 / 100000 :: real) < 2 * pi" using pi_ge_two by simp
  ultimately have "sin (314158 / 100000 :: real) \<le> 0" by (rule sin_le_zero)
  with sin_pos_below_pi show False by simp
qed

lemma pi_upper: "pi < 31416 / 10000"
proof (rule ccontr)
  assume "\<not> pi < 31416 / 10000"
  then have "(31416 / 10000 :: real) \<le> pi" by simp
  then have "0 \<le> sin (31416 / 10000 :: real)" by (intro sin_ge_zero) simp_all
  with sin_neg_above_pi show False by simp
qed

lemma atan2_zero_one: "atan2 0 1 = 0"
  by (simp add: atan2_def)

lemma atan2_diag: "0 < x \<Longrightarrow> atan2 x x = pi / 4"
  by (simp add: atan2_def arctan_one)

lemma calculateDistance_same: "calculateDistance lat lon lat lon = 0"
  by (simp add: calculateDistance_def deg2rad_def atan2_zero_one)

lemma deg2rad_diff: "deg2rad (x - y) = - deg2rad (y - x)"
  by (simp add: deg2rad_def field_simps)

lemma calculateDistance_sym:
  "calculateDistance lat1 lon1 lat2 lon2 = calculateDistance lat2 lon2 lat1 lon1"
proof -
  have a: "deg2rad (lat1 - lat2) / 2 = - (deg2rad (lat2 - lat1) / 2)"
    and b: "deg2rad (lon1 - lon2) / 2 = - (deg2rad (lon2 - lon1) / 2)"
    by (simp_all add: deg2rad_def field_simps)
  show ?thesis
    unfolding calculateDistance_def Let_def a b sin_minus
    by (simp add: mult.commute mult.left_commute)
qed

lemma sin_45_sq: "sin (pi / 4) * sin (pi / 4) = (1 / 2 :: real)"
  by (simp add: sin_45)

lemma calculateDistance_quarter: "calculateDistance 0 0 0 90 = 6371 * pi / 2"
proof -
  have h: "deg2rad 90 / 2 = pi / 4" by (simp add: deg2rad_def)
  have a: "sin (deg2rad (0 - 0) / 2) * sin (deg2rad (0 - 0) / 2) +
           cos (deg2rad 0) * cos (deg2rad 0) * sin (deg2rad (90 - 0) / 2) * sin (deg2rad (90 - 0) / 2)
           = 1 / 2"
    using sin_45_sq by (simp add: h) (simp add: deg2rad_def)
  have s: "(0::real) < sqrt (1 / 2)" by simp
  show ?thesis
    unfolding calculateDistance_def Let_def a
    using atan2_diag [OF s] by simp
qed

lemma haversine_a_range:
  fixes p1 p2 l :: real
  defines "a \<equiv> sin ((p2 - p1) / 2) * sin ((p2 - p1) / 2) + cos p1 * cos p2 * sin (l / 2) * sin (l / 2)"
  shows "0 \<le> a \<and> a \<le> 1"
proof -
  define s where "s = sin (l / 2) * sin (l / 2)"
  have s01: "0 \<le> s" "s \<le> 1"
    unfolding s_def using abs_sin_le_one [of "l / 2"]
    by (simp_all add: abs_le_square_iff [symmetric] power2_eq_square [symmetric] abs_square_le_1)
  have d: "sin ((p2 - p1) / 2) * sin ((p2 - p1) / 2) = (1 - cos (p2 - p1)) / 2"
  proof -
    have "cos (2 * ((p2 - p1) / 2)) = 1 - 2 * (sin ((p2 - p1) / 2))\<^sup>2"
      by (rule cos_double_sin)
    moreover have "2 * ((p2 - p1) / 2) = p2 - p1" by simp
    ultimately have "cos (p2 - p1) = 1 - 2 * (sin ((p2 - p1) / 2))\<^sup>2" by (simp only:)
    then show ?thesis by (simp add: power2_eq_square)
  qed
  have c: "cos p1 * cos p2 = (cos (p2 - p1) + cos (p2 + p1)) / 2"
    by (simp add: cos_add cos_diff)
  have a_eq: "a = (1 - cos (p2 - p1)) / 2 + s * ((cos (p2 - p1) + cos (p2 + p1)) / 2)"
    unfolding a_def s_def d c [symmetric] by (simp add: mult.assoc)
  define u where "u = cos (p2 - p1)"
  define v where "v = cos (p2 + p1)"
  have uv: "- 1 \<le> u" "u \<le> 1" "- 1 \<le> v" "v \<le> 1" by (simp_all add: u_def v_def)
  have a2: "2 * a = (1 - s) * (1 - u) + s * (1 + v)"
    unfolding a_eq u_def v_def by (simp add: field_simps)
  have "0 \<le> (1 - s) * (1 - u)" "0 \<le> s * (1 + v)" using s01 uv by simp_all
  then have lo: "0 \<le> 2 * a" unfolding a2 by simp
  have "(1 - s) * (1 - u) \<le> (1 - s) * 2"
    by (rule mult_left_mono) (use s01 uv in simp_all)
  moreover have "s * (1 + v) \<le> s * 2"
    by (rule mult_left_mono) (use s01 uv in simp_all)
  ultimately have "2 * a \<le> 2" unfolding a2 by simp
  with lo show ?thesis by simp
qed

lemma arctan_le_self: "0 \<le> x \<Longrightarrow> arctan x \<le> x"
proof -
  assume x: "0 \<le> x"
  have "0 - arctan 0 \<le> x - arctan x"
  proof (rule DERIV_nonneg_imp_nondecreasing [OF x, where f = "\<lambda>t. t - arctan t"])
    fix t :: real
    have "((\<lambda>t. t - arctan t) has_real_derivative (1 - 1 / (1 + t\<^sup>2))) (at t)"
      by (auto intro!: derivative_eq_intros simp: field_simps)
    moreover have "0 < 1 + t\<^sup>2" by (rule add_pos_nonneg) simp_all
    then have "0 \<le> 1 - 1 / (1 + t\<^sup>2)" by (simp add: pos_divide_le_eq)
    ultimately show "\<exists>y. ((\<lambda>t. t - arctan t) has_real_derivative y) (at t) \<and> 0 \<le> y"
      by blast
  qed
  then show ?thesis by simp
qed

lemma atan2_small:
  assumes a0: "0 \<le> a" and a1: "a \<le> 1 / 100000"
  shows "atan2 (sqrt a) (sqrt (1 - a)) \<le> 1 / 256"
proof -
  have pos: "0 < sqrt (1 - a)" using a1 by simp
  have "sqrt a / sqrt (1 - a) = sqrt (a / (1 - a))" by (simp add: real_sqrt_divide)
  also have "\<dots> \<le> sqrt (1 / 65536)"
  proof (rule real_sqrt_le_mono)
    have "a * 65536 \<le> 1 - a" using a0 a1 by simp
    then show "a / (1 - a) \<le> 1 / 65536" using a1 by (simp add: field_simps)
  qed
  also have "\<dots> = 1 / 256"
    by (simp add: real_sqrt_divide)
  finally have le: "sqrt a / sqrt (1 - a) \<le> 1 / 256" .
  have "0 \<le> sqrt a / sqrt (1 - a)" using a0 pos by simp
  then have "arctan (sqrt a / sqrt (1 - a)) \<le> sqrt a / sqrt (1 - a)" by (rule arctan_le_self)
  then have "arctan (sqrt a / sqrt (1 - a)) \<le> 1 / 256" using le by (rule order_trans)
  moreover have "atan2 (sqrt a) (sqrt (1 - a)) = arctan (sqrt a / sqrt (1 - a))"
    using pos by (simp add: atan2_def)
  ultimately show ?thesis by (simp only:)
qed

lemma sin_sq_le: "sin x * sin x \<le> x * x" for x :: real
proof -
  have "\<bar>sin x\<bar> * \<bar>sin x\<bar> \<le> \<bar>x\<bar> * \<bar>x\<bar>"
    by (intro mult_mono abs_sin_x_le_abs_x) simp_all
  then show ?thesis by simp
qed

lemma haversine_near_origin:
  "haversine_metres (1 / 1000, 1 / 1000) (0, 0) \<le> 50000"
proof -
  define h where "h = deg2rad (0 - 1 / 1000) / 2"
  define a where "a = sin h * sin h + cos (deg2rad (1 / 1000)) * cos (deg2rad 0) * sin h * sin h"
  have habs: "\<bar>h\<bar> \<le> 1 / 1000"
    using pi_less_4 pi_gt_zero by (simp add: h_def deg2rad_def abs_if)
  have hh: "h * h \<le> 1 / 1000000"
  proof -
    have "\<bar>h\<bar> * \<bar>h\<bar> \<le> (1 / 1000) * (1 / 1000)"
      by (intro mult_mono habs) simp_all
    then show ?thesis by simp
  qed
  define sq where "sq = sin h * sin h"
  define cc where "cc = cos (deg2rad (1 / 1000)) * cos (deg2rad 0)"
  have s: "0 \<le> sq" "sq \<le> 1 / 1000000"
    unfolding sq_def using sin_sq_le [of h] hh by simp_all
  have c: "cc \<le> 1" "- 1 \<le> cc"
    by (simp_all add: cc_def deg2rad_def)
  have a_eq: "a = (1 + cc) * sq"
    by (simp add: a_def sq_def cc_def algebra_simps)
  have a0: "0 \<le> a" unfolding a_eq by (rule mult_nonneg_nonneg) (use c s in simp_all)
  have "(1 + cc) * sq \<le> 2 * sq" by (rule mult_right_mono) (use c s in simp_all)
  then have a1: "a \<le> 1 / 100000" unfolding a_eq using s by simp
  have "calculateDistance (1 / 1000) (1 / 1000) 0 0 = 6371 * (2 * atan2 (sqrt a) (sqrt (1 - a)))"
    by (simp add: calculateDistance_def Let_def a_def h_def)
  also have "\<dots> \<le> 6371 * (2 * (1 / 256))"
    using atan2_small [OF a0 a1] by simp
  also have "\<dots> \<le> 50" by simp
  finally show ?thesis by (simp add: haversine_metres_def)
qed

lemma haversine_quarter: "haversine_metres (90, 0) (0, 0) = 6371 * pi / 2 * 1000"
  using calculateDistance_sym [of 0 90 0 0] calculateDistance_quarter
  by (simp add: haversine_metres_def)

section \<open>Facts about the candidate query\<close>

lemma getCandidates_subset:
  assumes "findById us uid = Some cu" "isProfileComplete cu"
  shows "\<exists>rs. getCandidates near us uid = Inr rs \<and> length rs \<le> 10 \<and>
           (\<forall>r \<in> set rs. cand_user r \<in> set us \<and> matchCriteria near cu (cand_user r))"
proof -
  let ?pm = "take 10 (sort_key (\<lambda>m. - lastActive m) (filter (matchCriteria near cu) us))"
  have sub: "set ?pm \<subseteq> set (filter (matchCriteria near cu) us)"
    using set_take_subset [of 10 "sort_key (\<lambda>m. - lastActive m) (filter (matchCriteria near cu) us)"]
    by simp
  obtain rs where rs: "getCandidates near us uid = Inr rs" "length rs = length ?pm"
    "cand_user ` set rs = set ?pm"
    using assms by (auto simp: getCandidates_def Let_def image_image)
  have "length rs \<le> 10" using rs(2) by simp
  moreover have "\<forall>r \<in> set rs. cand_user r \<in> set us \<and> matchCriteria near cu (cand_user r)"
    using rs(3) sub by auto
  ultimately show ?thesis using rs(1) by blast
qed

lemma campus_candidates:
  "getCandidates near campus 1 = Inr [\<lparr>cand_user = sample_user 2, distance = None\<rparr>]"
  by (simp add: getCandidates_def findById_def campus_def seeker_def sample_user_def
      isProfileComplete_def matchCriteria_def)

lemma located_candidates:
  "getCandidates haversine_metres [located_seeker, sample_user 2] 1 =
     Inr [\<lparr>cand_user = sample_user 2, distance = None\<rparr>]"
  using haversine_near_origin
  by (simp add: getCandidates_def findById_def located_seeker_def sample_user_def
      isProfileComplete_def matchCriteria_def)

section \<open>Claims about candidates and distance\<close>

text \<open>
  C3. For an existing user, \<open>getCandidates\<close> answers \<open>ProfileIncomplete\<close> when
  \<open>isProfileComplete()\<close> is false (which is when the stored \<open>profileCompleted\<close> flag is
  false, for a user whose flag is in step with the method, as every profile route leaves
  it). Otherwise it returns at most ten candidates, each a stored user other than the
  acting user, in neither \<open>likedUsers\<close> nor \<open>dislikedUsers\<close>, of the same university,
  email-verified and profile-complete, with an age in the acting user's range, of the
  gender the acting user is interested in unless that is \<open>both\<close>, and interested in the
  acting user's gender or in \<open>both\<close>.
\<close>

theorem getCandidates_filters:
  assumes f: "findById us uid = Some cu"
  shows "(\<not> isProfileComplete cu \<longrightarrow> getCandidates near us uid = Inl ProfileIncomplete) \<and>
         (profileCompleted cu = isProfileComplete cu \<longrightarrow>
            (getCandidates near us uid = Inl ProfileIncomplete \<longleftrightarrow> \<not> profileCompleted cu)) \<and>
         (isProfileComplete cu \<longrightarrow>
            (\<exists>rs. getCandidates near us uid = Inr rs \<and> length rs \<le> 10 \<and>
               (\<forall>r \<in> set rs.
                  cand_user r \<in> set us \<and>
                  user_id (cand_user r) \<noteq> uid \<and>
                  user_id (cand_user r) \<notin> set (likedUsers cu) \<and>
                  user_id (cand_user r) \<notin> set (dislikedUsers cu) \<and>
                  university (cand_user r) = university cu \<and>
                  isEmailVerified (cand_user r) \<and>
                  profileCompleted (cand_user r) \<and>
                  range_min (ageRange (preferences cu)) \<le> age (cand_user r) \<and>
                  age (cand_user r) \<le> range_max (ageRange (preferences cu)) \<and>
                  (interestedIn cu \<noteq> ''both'' \<longrightarrow> gender (cand_user r) = interestedIn cu) \<and>
                  (interestedIn (cand_user r) = gender cu \<or>
                   interestedIn (cand_user r) = ''both''))))"
proof (intro conjI impI)
  assume "\<not> isProfileComplete cu"
  then show "getCandidates near us uid = Inl ProfileIncomplete"
    using f by (simp add: getCandidates_def)
next
  assume "profileCompleted cu = isProfileComplete cu"
  then show "getCandidates near us uid = Inl ProfileIncomplete \<longleftrightarrow> \<not> profileCompleted cu"
    using f by (auto simp: getCandidates_def Let_def)
next
  assume c: "isProfileComplete cu"
  have id: "user_id cu = uid" using f by (rule findById_Some_id)
  from getCandidates_subset [OF f c, of near] obtain rs where
    rs: "getCandidates near us uid = Inr rs" "length rs \<le> 10"
      "\<forall>r \<in> set rs. cand_user r \<in> set us \<and> matchCriteria near cu (cand_user r)"
    by blast
  show "\<exists>rs. getCandidates near us uid = Inr rs \<and> length rs \<le> 10 \<and>
               (\<forall>r \<in> set rs.
                  cand_user r \<in> set us \<and>
                  user_id (cand_user r) \<noteq> uid \<and>
                  user_id (cand_user r) \<notin> set (likedUsers cu) \<and>
                  user_id (cand_user r) \<notin> set (dislikedUsers cu) \<and>
                  university (cand_user r) = university cu \<and>
                  isEmailVerified (cand_user r) \<and>
                  profileCompleted (cand_user r) \<and>
                  range_min (ageRange (preferences cu)) \<le> age (cand_user r) \<and>
                  age (cand_user r) \<le> range_max (ageRange (preferences cu)) \<and>
                  (interestedIn cu \<noteq> ''both'' \<longrightarrow> gender (cand_user r) = interestedIn cu) \<and>
                  (interestedIn (cand_user r) = gender cu \<or>
                   interestedIn (cand_user r) = ''both''))"
    using rs id unfolding matchCriteria_def by (intro exI [of _ rs]) auto
qed

theorem getCandidates_filters_witness:
  "findById campus 1 = Some seeker \<and> isProfileComplete seeker \<and>
   profileCompleted seeker = isProfileComplete seeker \<and>
   interestedIn seeker \<noteq> ''both'' \<and>
   getCandidates haversine_metres campus 1 =
     Inr [\<lparr>cand_user = sample_user 2, distance = None\<rparr>] \<and>
   gender (sample_user 2) = interestedIn seeker \<and>
   (interestedIn (sample_user 2) = gender seeker \<or> interestedIn (sample_user 2) = ''both'') \<and>
   university (sample_user 2) = university seeker \<and>
   findById campus 6 = Some ((sample_user 6)\<lparr>photos := [], profileCompleted := False\<rparr>) \<and>
   getCandidates haversine_metres campus 6 = Inl ProfileIncomplete"
proof -
  have f1: "findById campus 1 = Some seeker"
    by (simp add: findById_def campus_def seeker_def sample_user_def)
  have c1: "isProfileComplete seeker"
    by (simp add: isProfileComplete_def seeker_def sample_user_def)
  have nb: "interestedIn seeker \<noteq> ''both''" by (simp add: seeker_def)
  have sy: "profileCompleted seeker = isProfileComplete seeker"
    using c1 by (simp add: seeker_def sample_user_def)
  have f6: "findById campus 6 = Some ((sample_user 6)\<lparr>photos := [], profileCompleted := False\<rparr>)"
    by (simp add: findById_def campus_def seeker_def sample_user_def)
  have c6: "\<not> isProfileComplete ((sample_user 6)\<lparr>photos := [], profileCompleted := False\<rparr>)"
    by (simp add: isProfileComplete_def)
  note ev = campus_candidates [of haversine_metres]
  from getCandidates_filters [OF f1, of haversine_metres] c1 nb ev
  have a: "gender (sample_user 2) = interestedIn seeker \<and>
   (interestedIn (sample_user 2) = gender seeker \<or> interestedIn (sample_user 2) = ''both'') \<and>
   university (sample_user 2) = university seeker" by auto
  from getCandidates_filters [OF f6, of haversine_metres] c6
  have b: "getCandidates haversine_metres campus 6 = Inl ProfileIncomplete" by blast
  from a b f1 c1 nb sy f6 ev show ?thesis by blast
qed

text \<open>
  C4, as amended. When both coordinates of the acting user's location are non-zero, every
  returned candidate is within \<open>maxDistance * 1000\<close> metres of the acting user, as
  measured by the geospatial query. A candidate at the default coordinates \<open>(0, 0)\<close> is
  measured like any other point.
\<close>

theorem getCandidates_geo_filter:
  assumes f: "findById us uid = Some cu" and c: "isProfileComplete cu"
    and lon: "fst (location cu) \<noteq> 0" and lat: "snd (location cu) \<noteq> 0"
  shows "\<exists>rs. getCandidates near us uid = Inr rs \<and>
           (\<forall>r \<in> set rs.
              near (location cu) (location (cand_user r))
                \<le> real_of_int (maxDistance (preferences cu) * 1000))"
proof -
  from getCandidates_subset [OF f c, of near] obtain rs where
    rs: "getCandidates near us uid = Inr rs"
      "\<forall>r \<in> set rs. cand_user r \<in> set us \<and> matchCriteria near cu (cand_user r)"
    by blast
  show ?thesis
    using rs lon lat unfolding matchCriteria_def by (intro exI [of _ rs]) auto
qed

theorem getCandidates_geo_filter_witness:
  "findById [located_seeker, sample_user 2] 1 = Some located_seeker \<and>
   isProfileComplete located_seeker \<and>
   fst (location located_seeker) \<noteq> 0 \<and> snd (location located_seeker) \<noteq> 0 \<and>
   getCandidates haversine_metres [located_seeker, sample_user 2] 1 =
     Inr [\<lparr>cand_user = sample_user 2, distance = None\<rparr>] \<and>
   haversine_metres (location located_seeker) (location (sample_user 2))
     \<le> real_of_int (maxDistance (preferences located_seeker) * 1000)"
proof -
  have f: "findById [located_seeker, sample_user 2] 1 = Some located_seeker"
    by (simp add: findById_def located_seeker_def sample_user_def)
  have c: "isProfileComplete located_seeker"
    by (simp add: isProfileComplete_def located_seeker_def sample_user_def)
  have l: "fst (location located_seeker) \<noteq> 0" "snd (location located_seeker) \<noteq> 0"
    by (simp_all add: located_seeker_def)
  from getCandidates_geo_filter [OF f c l, of haversine_metres] located_candidates
  have "haversine_metres (location located_seeker) (location (sample_user 2))
     \<le> real_of_int (maxDistance (preferences located_seeker) * 1000)" by auto
  with f c l located_candidates show ?thesis by blast
qed

text \<open>
  C4 as stated fails in two ways. An acting user on the equator at longitude 90 has a
  location other than \<open>(0, 0)\<close>, yet no distance condition is applied: a candidate at the
  default coordinates, a quarter of a great circle away, is returned with \<open>maxDistance\<close>
  50. And with the distance condition in force, for an acting user a thousandth of a
  degree from \<open>(0, 0)\<close>, a candidate at the default coordinates is within range and is
  returned.
\<close>

theorem geo_filter_counterexample:
  "location equator_seeker \<noteq> (0, 0) \<and>
   location (sample_user 2) = (0, 0) \<and>
   maxDistance (preferences equator_seeker) = 50 \<and>
   haversine_metres (location equator_seeker) (location (sample_user 2)) > 50 * 1000 \<and>
   getCandidates haversine_metres [equator_seeker, sample_user 2] 1 =
     Inr [\<lparr>cand_user = sample_user 2, distance = None\<rparr>] \<and>
   fst (location located_seeker) \<noteq> 0 \<and> snd (location located_seeker) \<noteq> 0 \<and>
   getCandidates haversine_metres [located_seeker, sample_user 2] 1 =
     Inr [\<lparr>cand_user = sample_user 2, distance = None\<rparr>]"
proof -
  have far: "haversine_metres (location equator_seeker) (location (sample_user 2)) > 50 * 1000"
    using haversine_quarter pi_ge_two by (simp add: equator_seeker_def sample_user_def)
  have ev: "getCandidates haversine_metres [equator_seeker, sample_user 2] 1 =
     Inr [\<lparr>cand_user = sample_user 2, distance = None\<rparr>]"
    by (simp add: getCandidates_def findById_def equator_seeker_def sample_user_def
      isProfileComplete_def matchCriteria_def)
  have misc: "location equator_seeker \<noteq> (0, 0)" "location (sample_user 2) = (0, 0)"
    "maxDistance (preferences equator_seeker) = 50"
    "fst (location located_seeker) \<noteq> 0" "snd (location located_seeker) \<noteq> 0"
    by (simp_all add: equator_seeker_def located_seeker_def sample_user_def)
  from far ev misc located_candidates show ?thesis by blast
qed

text \<open>
  C8. Over the real numbers, \<open>calculateDistance\<close> is zero from a point to itself and
  symmetric in its two points, and from \<open>(0\<degree>, 0\<degree>)\<close> to \<open>(0\<degree>, 90\<degree>)\<close> it is
  \<open>6371 \<pi> / 2\<close>, which lies between 10007.5 and 10007.6.
\<close>

theorem calculateDistance_properties:
  "calculateDistance lat lon lat lon = 0 \<and>
   calculateDistance lat1 lon1 lat2 lon2 = calculateDistance lat2 lon2 lat1 lon1 \<and>
   calculateDistance 0 0 0 90 = 6371 * pi / 2 \<and>
   10007.5 < calculateDistance 0 0 0 90 \<and> calculateDistance 0 0 0 90 < 10007.6"
proof -
  have "10007.5 < 6371 * pi / 2" "6371 * pi / 2 < 10007.6"
    using pi_lower pi_upper by simp_all
  then show ?thesis
    using calculateDistance_same [of lat lon] calculateDistance_sym [of lat1 lon1 lat2 lon2]
      calculateDistance_quarter by simp
qed

end
